theory Spec2Isabelle
  imports Main
begin

section \<open>Strings and formatting\<close>

text \<open>
  Go strings are byte sequences; they are modelled as \<open>string\<close> (a list of
  8-bit characters).  The three characters below cannot be written inside a
  string literal.
\<close>

definition newline :: char where
  "newline = CHR 0x0A"

definition squote :: char where
  "squote = CHR 0x27"

definition dquote :: char where
  "dquote = CHR 0x22"

text \<open>\<open>html.EscapeString\<close>: the five characters the Go library escapes.\<close>

definition escapeChar :: "char \<Rightarrow> string" where
  "escapeChar c =
     (if c = CHR ''&'' then ''&amp;''
      else if c = squote then ''&#39;''
      else if c = CHR ''<'' then ''&lt;''
      else if c = CHR ''>'' then ''&gt;''
      else if c = dquote then ''&#34;''
      else [c])"

definition EscapeString :: "string \<Rightarrow> string" where
  "EscapeString s = concat (map escapeChar s)"

section \<open>The regular expression \<open>blobNameSHA256\<close>\<close>

text \<open>
  The pattern of \<open>http.go\<close> line 22 is
  \<^verbatim>\<open>^/?(.*/)?(ac/|cas/)([a-f0-9]{64})$\<close>.
  It is kept as data and run by a backtracking matcher with the priorities
  of Go's \<open>regexp\<close> package (leftmost-first: an earlier alternative wins,
  \<open>?\<close> and \<open>*\<close> are greedy).  An atom matches one character: \<open>.\<close> is any
  character but the newline (Go's default, flag \<open>s\<close> off), a class is a
  list of characters.
\<close>

datatype atom = AnyChar | OneOf "char list"

datatype regex =
    Lit string
  | Atom atom
  | Seq regex regex
  | Alt regex regex
  | Opt regex
  | Star atom
  | Group nat regex

type_synonym caps = "nat \<rightharpoonup> string"

fun atomMatch :: "atom \<Rightarrow> char \<Rightarrow> bool" where
  "atomMatch AnyChar c = (c \<noteq> newline)"
| "atomMatch (OneOf cs) c = (c \<in> set cs)"

text \<open>
  \<open>starA a s k\<close>: the greedy star of an atom.  It takes characters while the
  atom matches and gives each remaining input to the continuation, the
  shortest remainder first.
\<close>

fun starA :: "atom \<Rightarrow> string \<Rightarrow> (string \<Rightarrow> caps option) \<Rightarrow> caps option" where
  "starA a [] k = k []"
| "starA a (c # cs) k =
     (if atomMatch a c
      then (case starA a cs k of Some g \<Rightarrow> Some g | None \<Rightarrow> k (c # cs))
      else k (c # cs))"

text \<open>
  \<open>rmatch r s g k\<close> matches \<open>r\<close> at the front of \<open>s\<close> with the groups \<open>g\<close>
  captured so far and hands the rest of the input to \<open>k\<close>; \<open>None\<close> is
  failure, after which the caller tries its next choice.
\<close>

fun rmatch :: "regex \<Rightarrow> string \<Rightarrow> caps \<Rightarrow> (string \<Rightarrow> caps \<Rightarrow> caps option) \<Rightarrow> caps option" where
  "rmatch (Lit l) s g k =
     (if take (length l) s = l then k (drop (length l) s) g else None)"
| "rmatch (Atom a) s g k =
     (case s of [] \<Rightarrow> None | c # cs \<Rightarrow> if atomMatch a c then k cs g else None)"
| "rmatch (Seq r1 r2) s g k = rmatch r1 s g (\<lambda>s' g'. rmatch r2 s' g' k)"
| "rmatch (Alt r1 r2) s g k =
     (case rmatch r1 s g k of Some g' \<Rightarrow> Some g' | None \<Rightarrow> rmatch r2 s g k)"
| "rmatch (Opt r) s g k =
     (case rmatch r s g k of Some g' \<Rightarrow> Some g' | None \<Rightarrow> k s g)"
| "rmatch (Star a) s g k = starA a s (\<lambda>s'. k s' g)"
| "rmatch (Group i r) s g k =
     rmatch r s g (\<lambda>s' g'. k s' (g'(i \<mapsto> take (length s - length s') s)))"

text \<open>\<open>x{n}\<close> is \<open>n\<close> copies of \<open>x\<close> in sequence.\<close>

fun repeatN :: "nat \<Rightarrow> regex \<Rightarrow> regex" where
  "repeatN 0 r = Lit []"
| "repeatN (Suc n) r = Seq r (repeatN n r)"

definition hexClass :: atom where
  "hexClass = OneOf ''abcdef0123456789''"

definition blobNameSHA256 :: regex where
  "blobNameSHA256 =
     Seq (Opt (Lit ''/''))
      (Seq (Opt (Group 1 (Seq (Star AnyChar) (Lit ''/''))))
        (Seq (Group 2 (Alt (Lit ''ac/'') (Lit ''cas/'')))
             (Group 3 (repeatN 64 (Atom hexClass)))))"

text \<open>
  The anchors: \<open>^\<close> makes offset 0 the only start of a match and \<open>$\<close>
  (flag \<open>m\<close> off) accepts only the end of the text, so the search of
  \<open>FindStringSubmatch\<close> is one match attempt on the whole input.
\<close>

definition atEnd :: "string \<Rightarrow> caps \<Rightarrow> caps option" where
  "atEnd s g = (if s = [] then Some g else None)"

text \<open>
  \<open>FindStringSubmatch\<close> returns \<open>nil\<close> (here \<open>None\<close>) or the slice of the
  whole match and the text of each group, the empty string for a group that
  took no part in the match.
\<close>

definition groupText :: "caps \<Rightarrow> nat \<Rightarrow> string" where
  "groupText g i = (case g i of None \<Rightarrow> [] | Some t \<Rightarrow> t)"

definition FindStringSubmatch :: "regex \<Rightarrow> string \<Rightarrow> string list option" where
  "FindStringSubmatch re s =
     (case rmatch re s Map.empty atEnd of
        None \<Rightarrow> None
      | Some g \<Rightarrow> Some [s, groupText g 1, groupText g 2, groupText g 3])"

section \<open>File paths (\<open>path/filepath\<close> on Unix)\<close>

fun splitOn :: "char \<Rightarrow> string \<Rightarrow> string list" where
  "splitOn c [] = [[]]"
| "splitOn c (x # xs) =
     (if x = c then [] # splitOn c xs
      else (case splitOn c xs of [] \<Rightarrow> [[x]] | s # ss \<Rightarrow> (x # s) # ss))"

fun joinWith :: "string \<Rightarrow> string list \<Rightarrow> string" where
  "joinWith sep [] = []"
| "joinWith sep [x] = x"
| "joinWith sep (x # y # ys) = x @ sep @ joinWith sep (y # ys)"

text \<open>
  \<open>filepath.Clean\<close>: the elements of the path are visited from left to
  right with a stack of the elements kept so far (its top is the head of
  \<open>acc\<close>).  Empty elements and \<open>.\<close> are dropped; \<open>..\<close> removes the element
  before it, is dropped at the root, and is kept at the start of a relative
  path.  The empty result is \<open>.\<close>.
\<close>

definition cleanStep :: "bool \<Rightarrow> string list \<Rightarrow> string \<Rightarrow> string list" where
  "cleanStep rooted acc seg =
     (if seg = [] \<or> seg = ''.'' then acc
      else if seg = ''..'' then
        (case acc of
           [] \<Rightarrow> if rooted then [] else [seg]
         | t # ts \<Rightarrow> if t = ''..'' then seg # acc else ts)
      else seg # acc)"

definition isRooted :: "string \<Rightarrow> bool" where
  "isRooted p = (case p of [] \<Rightarrow> False | c # _ \<Rightarrow> c = CHR ''/'')"

definition cleanSegs :: "string \<Rightarrow> string list" where
  "cleanSegs p = rev (foldl (cleanStep (isRooted p)) [] (splitOn (CHR ''/'') p))"

definition render :: "bool \<Rightarrow> string list \<Rightarrow> string" where
  "render rooted segs =
     (if rooted then CHR ''/'' # joinWith ''/'' segs
      else if segs = [] then ''.'' else joinWith ''/'' segs)"

definition Clean :: "string \<Rightarrow> string" where
  "Clean p = render (isRooted p) (cleanSegs p)"

text \<open>
  \<open>filepath.Join\<close>: the elements from the first non-empty one on, joined by
  the separator and cleaned; the empty string when every element is empty.
\<close>

definition Join :: "string list \<Rightarrow> string" where
  "Join elem =
     (case dropWhile (\<lambda>e. e = []) elem of
        [] \<Rightarrow> []
      | es \<Rightarrow> Clean (joinWith ''/'' es))"

text \<open>\<open>filepath.Dir\<close>: the path up to its last separator, cleaned.\<close>

definition Dir :: "string \<Rightarrow> string" where
  "Dir p = Clean (rev (dropWhile (\<lambda>c. c \<noteq> CHR ''/'') (rev p)))"

section \<open>The key parser\<close>

record cacheItem =
  hash :: string
  absFilePath :: string
  verifyHash :: bool

text \<open>
  \<open>cacheItemFromRequestPath\<close> (lines 79 to 99).  A Go \<open>error\<close> value is its
  message.  \<open>m[2:]\<close> is \<open>drop 2 m\<close>; the slice has two elements whenever the
  pattern matched, the check of its length is kept as written.
\<close>

definition cacheItemFromRequestPath :: "string \<Rightarrow> string \<Rightarrow> string + cacheItem" where
  "cacheItemFromRequestPath url baseDir =
     (case FindStringSubmatch blobNameSHA256 url of
        None \<Rightarrow>
          Inl (''Resource name must be a SHA256 hash in hex. Got '' @ [squote]
                 @ EscapeString url @ [squote] @ ''.'')
      | Some m \<Rightarrow>
          (case drop 2 m of
             [p0, p1] \<Rightarrow>
               Inr \<lparr> hash = p1,
                     absFilePath = Join [baseDir, p0, p1],
                     verifyHash = (p0 = ''cas/'') \<rparr>
           | _ \<Rightarrow>
               Inl (''The path '' @ [squote] @ EscapeString url @ [squote]
                      @ '' is invalid. Expected (ac/|cas/)SHA256.'')))"

section \<open>Numbers and digests as text\<close>

text \<open>The verb \<open>%d\<close> of \<open>fmt\<close>, and \<open>strconv.Itoa\<close>: decimal digits.\<close>

definition digitChar :: "nat \<Rightarrow> char" where
  "digitChar n = ''0123456789'' ! n"

fun decimal :: "nat \<Rightarrow> string" where
  "decimal n = (if n < 10 then [digitChar n] else decimal (n div 10) @ [digitChar (n mod 10)])"

declare decimal.simps [simp del]

definition decimalInt :: "int \<Rightarrow> string" where
  "decimalInt i = (if i < 0 then CHR ''-'' # decimal (nat (- i)) else decimal (nat i))"

text \<open>
  \<open>utf8.RuneCountInString\<close>.  \<open>runeSize c cs\<close> is the number of bytes of
  the character that starts with the byte \<open>c\<close>, followed by \<open>cs\<close>: the
  length the first byte announces when the bytes after it are there and in
  the ranges the encoding allows, and 1 otherwise (a byte that starts no
  valid encoding counts as one character).  \<open>runeCount k s\<close> counts the
  characters of \<open>s\<close> after \<open>k\<close> more bytes of a character already counted.
\<close>

definition runeSize :: "char \<Rightarrow> string \<Rightarrow> nat" where
  "runeSize c cs =
     (let b = (of_char c :: nat);
          cont = (\<lambda>i lo hi. i < length cs \<and> lo \<le> (of_char (cs ! i) :: nat)
                                \<and> (of_char (cs ! i) :: nat) \<le> hi)
      in if b < 0x80 then 1
         else if 0xC2 \<le> b \<and> b \<le> 0xDF then (if cont 0 0x80 0xBF then 2 else 1)
         else if 0xE0 \<le> b \<and> b \<le> 0xEF then
           (if cont 0 (if b = 0xE0 then 0xA0 else 0x80) (if b = 0xED then 0x9F else 0xBF)
               \<and> cont 1 0x80 0xBF
            then 3 else 1)
         else if 0xF0 \<le> b \<and> b \<le> 0xF4 then
           (if cont 0 (if b = 0xF0 then 0x90 else 0x80) (if b = 0xF4 then 0x8F else 0xBF)
               \<and> cont 1 0x80 0xBF \<and> cont 2 0x80 0xBF
            then 4 else 1)
         else 1)"

fun runeCount :: "nat \<Rightarrow> string \<Rightarrow> nat" where
  "runeCount k [] = 0"
| "runeCount (Suc k) (c # cs) = runeCount k cs"
| "runeCount 0 (c # cs) = Suc (runeCount (runeSize c cs - 1) cs)"

definition RuneCountInString :: "string \<Rightarrow> nat" where
  "RuneCountInString s = runeCount 0 s"

text \<open>The verb \<open>%Ns\<close>: the string, padded with spaces on the left to \<open>N\<close>
  characters.\<close>

definition padLeft :: "nat \<Rightarrow> string \<Rightarrow> string" where
  "padLeft n s = replicate (n - RuneCountInString s) (CHR '' '') @ s"

text \<open>\<open>hex.EncodeToString\<close>: two lowercase hexadecimal digits for each byte.\<close>

definition hexDigit :: "nat \<Rightarrow> char" where
  "hexDigit n = ''0123456789abcdef'' ! n"

definition EncodeToString :: "string \<Rightarrow> string" where
  "EncodeToString bs =
     concat (map (\<lambda>c. [hexDigit (of_char c div 16), hexDigit (of_char c mod 16)]) bs)"

section \<open>The cache index and the environment\<close>

text \<open>
  Modelled from the spec: the cache index (the \<open>Cache\<close> of \<open>cache.go\<close>,
  which is not among the sources).  Section 6 of the design gives its
  operations: \<open>rootDirectory\<close>, \<open>containsObject\<close>, \<open>registerObject\<close> (after
  which existence checks and the size accounting reflect the object),
  \<open>currentSizeBytes\<close>, \<open>maxSizeBytes\<close> and \<open>objectCount\<close>.  The index is the
  list of the registered paths with their sizes.
\<close>

record cacheIndex =
  cacheDir :: string
  entries :: "(string \<times> int) list"
  maxBytes :: int

definition ContainsFile :: "cacheIndex \<Rightarrow> string \<Rightarrow> bool" where
  "ContainsFile c p = (p \<in> set (map fst (entries c)))"

definition AddFile :: "cacheIndex \<Rightarrow> string \<Rightarrow> int \<Rightarrow> cacheIndex" where
  "AddFile c p n = c\<lparr>entries := (p, n) # entries c\<rparr>"

definition CurrSize :: "cacheIndex \<Rightarrow> int" where
  "CurrSize c = sum_list (map snd (entries c))"

definition MaxSize :: "cacheIndex \<Rightarrow> int" where
  "MaxSize c = maxBytes c"

definition NumFiles :: "cacheIndex \<Rightarrow> nat" where
  "NumFiles c = length (entries c)"

text \<open>
  What the handler gets from outside the repository's sources is a
  parameter: the space-ensurer (the interface \<open>EnsureSpacer\<close>; it returns
  its verdict and the index as it left it), \<open>sha256\<close>, \<open>net.SplitHostPort\<close>,
  \<open>os.TempDir\<close>, and the outcome of each operating-system call the code
  checks: an error message, or \<open>None\<close> for success.  \<open>tempFileRand\<close> is the
  random number that \<open>ioutil.TempFile\<close> appends to the prefix;
  \<open>copyFault = Some (m, k, e)\<close> says that the write of the chunk of the
  body that starts at offset \<open>m\<close> fails with \<open>e\<close> after \<open>k\<close> bytes of the
  chunk have reached the temporary file.
\<close>

record env =
  EnsureSpace :: "cacheIndex \<Rightarrow> int \<Rightarrow> bool \<times> cacheIndex"
  sha256Sum :: "string \<Rightarrow> string"
  SplitHostPort :: "string \<Rightarrow> string + (string \<times> string)"
  osTempDir :: string
  tempFileErr :: "string option"
  tempFileRand :: nat
  copyFault :: "(nat \<times> nat \<times> string) option"
  syncErr :: "string option"
  renameErr :: "string option"
  removeErr :: "string option"

text \<open>
  A request: the fields of \<open>http.Request\<close> the handler reads.  The body is
  a reader that delivers \<open>Body\<close> and then ends, with the error \<open>BodyErr\<close> or
  (\<open>None\<close>) at end of file.
\<close>

record request =
  Method :: string
  Path :: string
  RemoteAddr :: string
  ContentLength :: int
  Body :: string
  BodyErr :: "string option"

text \<open>The file-system calls the handler issues, in order.\<close>

datatype fscall =
    OsTempFile string string
  | OsWrite string string
  | OsSync string
  | OsClose string
  | OsRemove string
  | OsRename string string

text \<open>
  The state a request runs in: the fields of \<open>httpCache\<close> (the index, the
  registry \<open>ongoingUploads\<close> from paths to mutexes, the two loggers), the
  mutexes themselves (a store indexed by address, \<open>True\<close> for a locked
  one), the standard logger of package \<open>log\<close>, the disk, the trace of
  file-system calls, and the response writer of the request: the status
  line once written, the body written, how much of the request body was
  read, and whether the body was closed.
\<close>

record state =
  cache :: cacheIndex
  ongoingUploads :: "string \<rightharpoonup> nat"
  mutexes :: "bool list"
  accessLog :: "string list"
  errorLog :: "string list"
  stdLog :: "string list"
  disk :: "string \<rightharpoonup> string"
  calls :: "fscall list"
  wStatus :: "nat option"
  wBody :: string
  bodyRead :: nat
  bodyClosed :: bool

text \<open>How a handler ends: it returns, it panics, the process exits
  (\<open>log.Fatal\<close> is \<open>os.Exit(1)\<close> after the message; deferred calls do not
  run), or it waits for a mutex another request holds.\<close>

datatype outcome = Returned | Panicked string | Exited nat | Blocked

text \<open>A call that may end the process instead of returning.\<close>

datatype 'a ctl = Ret 'a | Fatal string

section \<open>The response writer and the loggers\<close>

text \<open>
  \<open>WriteHeader\<close> sends the status line once; a later call changes nothing.
  \<open>Write\<close> sends status 200 first if none was sent, and the server drops
  the body of the answer to a \<open>HEAD\<close> request.  \<open>http.Error\<close> is
  \<open>WriteHeader\<close> followed by the message and a newline (its headers are
  not modelled).
\<close>

definition WriteHeader :: "nat \<Rightarrow> state \<Rightarrow> state" where
  "WriteHeader code s = (case wStatus s of None \<Rightarrow> s\<lparr>wStatus := Some code\<rparr> | Some _ \<Rightarrow> s)"

definition Write :: "request \<Rightarrow> string \<Rightarrow> state \<Rightarrow> state" where
  "Write r bs s =
     (let s1 = WriteHeader 200 s
      in if Method r = ''HEAD'' then s1 else s1\<lparr>wBody := wBody s1 @ bs\<rparr>)"

definition httpError :: "request \<Rightarrow> string \<Rightarrow> nat \<Rightarrow> state \<Rightarrow> state" where
  "httpError r msg code s = Write r (msg @ [newline]) (WriteHeader code s)"

text \<open>\<open>logResponse\<close> (lines 114 to 123), format \<^verbatim>\<open>%4s %d %15s %s\<close>.\<close>

definition logResponse :: "env \<Rightarrow> request \<Rightarrow> nat \<Rightarrow> state \<Rightarrow> state" where
  "logResponse e r code s =
     (let clientAddress =
            (case SplitHostPort e (RemoteAddr r) of
               Inl err \<Rightarrow> RemoteAddr r
             | Inr (host, port) \<Rightarrow> host)
      in s\<lparr>accessLog := accessLog s @
            [padLeft 4 (Method r) @ '' '' @ decimal code @ '' ''
               @ padLeft 15 clientAddress @ '' '' @ Path r]\<rparr>)"

definition errorLogger :: "string \<Rightarrow> state \<Rightarrow> state" where
  "errorLogger line s = s\<lparr>errorLog := errorLog s @ [line]\<rparr>"

definition logPrintf :: "string \<Rightarrow> state \<Rightarrow> state" where
  "logPrintf line s = s\<lparr>stdLog := stdLog s @ [line]\<rparr>"

section \<open>The upload registry\<close>

text \<open>
  \<open>startUpload\<close> (lines 186 to 196) returns the mutex registered for the
  path, after allocating and registering a new one when there is none;
  \<open>stopUpload\<close> (lines 198 to 202) deletes the entry.
\<close>

definition startUpload :: "string \<Rightarrow> state \<Rightarrow> nat \<times> state" where
  "startUpload p s =
     (case ongoingUploads s p of
        None \<Rightarrow>
          (length (mutexes s),
           s\<lparr>mutexes := mutexes s @ [False],
             ongoingUploads := (ongoingUploads s)(p \<mapsto> length (mutexes s))\<rparr>)
      | Some mux \<Rightarrow> (mux, s))"

definition stopUpload :: "string \<Rightarrow> state \<Rightarrow> state" where
  "stopUpload p s = s\<lparr>ongoingUploads := (ongoingUploads s)(p := None)\<rparr>"

definition isLocked :: "nat \<Rightarrow> state \<Rightarrow> bool" where
  "isLocked mux s = (mux < length (mutexes s) \<and> mutexes s ! mux)"

definition Lock :: "nat \<Rightarrow> state \<Rightarrow> state" where
  "Lock mux s = s\<lparr>mutexes := (mutexes s)[mux := True]\<rparr>"

definition Unlock :: "nat \<Rightarrow> state \<Rightarrow> state" where
  "Unlock mux s = s\<lparr>mutexes := (mutexes s)[mux := False]\<rparr>"

text \<open>\<open>discardUpload\<close> (lines 204 to 207): the body is read to its end and dropped.\<close>

definition discardUpload :: "request \<Rightarrow> state \<Rightarrow> state" where
  "discardUpload r s = WriteHeader 200 (s\<lparr>bodyRead := length (Body r)\<rparr>)"

section \<open>The atomic writer\<close>

definition fsCall :: "fscall \<Rightarrow> state \<Rightarrow> state" where
  "fsCall c s = s\<lparr>calls := calls s @ [c]\<rparr>"

text \<open>
  \<open>os.Remove\<close>: fails when the environment says so or when there is no
  such file; otherwise the file is gone.
\<close>

definition osRemove :: "env \<Rightarrow> string \<Rightarrow> state \<Rightarrow> string option \<times> state" where
  "osRemove e p s =
     (let s1 = fsCall (OsRemove p) s
      in case removeErr e of
           Some err \<Rightarrow> (Some err, s1)
         | None \<Rightarrow>
             (case disk s1 p of
                None \<Rightarrow> (Some (''remove '' @ p @ '': no such file or directory''), s1)
              | Some _ \<Rightarrow> (None, s1\<lparr>disk := (disk s1)(p := None)\<rparr>)))"

text \<open>
  \<open>io.Copy\<close> from the request body, chunk by chunk: the bytes that reach
  the file and the error (\<open>None\<close> at end of file).  A write that fails
  ends the copy; the file keeps what the failing write had written.
\<close>

definition ioCopy :: "env \<Rightarrow> string \<Rightarrow> string option \<Rightarrow> string \<times> string option" where
  "ioCopy e content contentErr =
     (case copyFault e of
        None \<Rightarrow> (content, contentErr)
      | Some (m, k, err) \<Rightarrow>
          if m < length content then (take (m + k) content, Some err)
          else (content, contentErr))"

text \<open>
  The bytes the hasher receives when the copy goes through
  \<open>io.MultiWriter(f, hasher)\<close> (line 226): the multi-writer writes each
  chunk to the file first and stops at the first writer that fails, so the
  hasher has the chunks before the failing one and nothing of the failing
  chunk.
\<close>

definition hashedBytes :: "env \<Rightarrow> string \<Rightarrow> string" where
  "hashedBytes e content =
     (case copyFault e of
        None \<Rightarrow> content
      | Some (m, k, err) \<Rightarrow> if m < length content then take m content else content)"

text \<open>
  \<open>ioutil.TempFile(dir, prefix)\<close>: the name is \<open>dir\<close> (the system's
  temporary directory when \<open>dir\<close> is empty) joined with the prefix and a
  random decimal number; the file is created exclusively, so a name that
  exists is an error.
\<close>

definition tempFileName :: "env \<Rightarrow> string \<Rightarrow> string \<Rightarrow> string" where
  "tempFileName e dir pfx =
     Join [if dir = [] then osTempDir e else dir, pfx @ decimal (tempFileRand e)]"

definition ioutilTempFile :: "env \<Rightarrow> string \<Rightarrow> string \<Rightarrow> state \<Rightarrow> (string + string) \<times> state" where
  "ioutilTempFile e dir pfx s =
     (let s1 = fsCall (OsTempFile dir pfx) s; name = tempFileName e dir pfx
      in case tempFileErr e of
           Some err \<Rightarrow> (Inl err, s1)
         | None \<Rightarrow>
             (case disk s1 name of
                Some _ \<Rightarrow> (Inl (''open '' @ name @ '': file exists''), s1)
              | None \<Rightarrow> (Inr name, s1\<lparr>disk := (disk s1)(name \<mapsto> [])\<rparr>)))"

definition hashMismatch :: "string \<Rightarrow> string \<Rightarrow> string" where
  "hashMismatch provided actual =
     ''Hashes don'' @ [squote] @ ''t match. Provided '' @ [squote] @ provided @ [squote]
       @ '', Actual '' @ [squote] @ EscapeString actual @ [squote] @ ''.''"

text \<open>
  \<open>saveToDisk\<close> (lines 209 to 251).  The result is the pair
  \<open>(written, err)\<close> of the Go function, or \<open>Fatal\<close> where it calls
  \<open>log.Fatal\<close>.
\<close>

definition saveToDisk ::
  "env \<Rightarrow> string \<Rightarrow> string option \<Rightarrow> cacheItem \<Rightarrow> state \<Rightarrow> (int \<times> string option) ctl \<times> state" where
  "saveToDisk e content contentErr info s =
     (case ioutilTempFile e (cacheDir (cache s)) ''upload'' s of
        (Inl err, s1) \<Rightarrow> (Ret (0, Some err), s1)
      | (Inr tmpName, s1) \<Rightarrow>
          (let (bs, err) = ioCopy e content contentErr;
               s2 = fsCall (OsWrite tmpName bs)
                      (s1\<lparr>disk := (disk s1)(tmpName \<mapsto> bs), bodyRead := length bs\<rparr>);
               written = int (length bs);
               actualHash = EncodeToString (sha256Sum e (hashedBytes e content))
           in if verifyHash info \<and> hash info \<noteq> actualHash then
                (Ret (0, Some (hashMismatch (hash info) actualHash)),
                 snd (osRemove e tmpName s2))
              else
                (case err of
                   Some cerr \<Rightarrow> (Ret (0, Some cerr), s2)
                 | None \<Rightarrow>
                     (case syncErr e of
                        Some serr \<Rightarrow> (Fatal serr, logPrintf serr (fsCall (OsSync tmpName) s2))
                      | None \<Rightarrow>
                          (let s3 = fsCall (OsRename tmpName (absFilePath info))
                                      (fsCall (OsClose tmpName) (fsCall (OsSync tmpName) s2))
                           in case renameErr e of
                                Some err2 \<Rightarrow>
                                  (let s4 = logPrintf
                                         (''Failed renaming '' @ tmpName
                                            @ '' to its final destination ''
                                            @ absFilePath info @ '': '' @ err2) s3;
                                       (rerr, s5) = osRemove e (absFilePath info) s4
                                   in (Ret (0, Some err2),
                                       (case rerr of
                                          Some m \<Rightarrow>
                                            logPrintf
                                              (''Failed cleaning up '' @ tmpName
                                                 @ '' after a failure to rename it to its final destination: ''
                                                 @ m) s5
                                        | None \<Rightarrow> s5)))
                              | None \<Rightarrow>
                                  (Ret (written, None),
                                   s3\<lparr>disk := (disk s3)(tmpName := None,
                                                          absFilePath info \<mapsto> bs)\<rparr>))))))"

section \<open>The request dispatcher\<close>

text \<open>
  \<open>strings.FieldsFunc\<close>: the text between the characters that satisfy
  \<open>f\<close>, empty fields dropped.  \<open>containsDotDot\<close> of \<open>net/http\<close>: some field
  between slashes or backslashes is \<open>..\<close>.
\<close>

fun splitWhere :: "(char \<Rightarrow> bool) \<Rightarrow> string \<Rightarrow> string list" where
  "splitWhere f [] = [[]]"
| "splitWhere f (c # cs) =
     (if f c then [] # splitWhere f cs
      else (case splitWhere f cs of
              [] \<Rightarrow> [[c]]
            | x # xs \<Rightarrow> (c # x) # xs))"

definition FieldsFunc :: "string \<Rightarrow> (char \<Rightarrow> bool) \<Rightarrow> string list" where
  "FieldsFunc v f = [x \<leftarrow> splitWhere f v. x \<noteq> []]"

definition isSlashRune :: "char \<Rightarrow> bool" where
  "isSlashRune c = (c = CHR ''/'' \<or> c = CHR 0x5C)"

definition containsDotDot :: "string \<Rightarrow> bool" where
  "containsDotDot v = (''..'' \<in> set (FieldsFunc v isSlashRune))"

text \<open>
  \<open>http.ServeFile\<close>, as far as the handler depends on it: a request whose
  URL path has an element \<open>..\<close> is answered 400; otherwise the answer is the
  file's content with status 200, or the library's 404 when the file
  cannot be opened (ranges, conditional requests and content types are not
  modelled).
\<close>

definition ServeFile :: "request \<Rightarrow> string \<Rightarrow> state \<Rightarrow> state" where
  "ServeFile r p s =
     (if containsDotDot (Path r) then httpError r ''invalid URL path'' 400 s
      else (case disk s p of
              None \<Rightarrow> httpError r ''404 page not found'' 404 s
            | Some bs \<Rightarrow> Write r bs (WriteHeader 200 s)))"

definition nilDereference :: string where
  "nilDereference = ''runtime error: invalid memory address or nil pointer dereference''"

text \<open>
  The part of the \<open>PUT\<close> case that runs with the upload mutex held
  (lines 151 to 171).
\<close>

definition putLocked :: "env \<Rightarrow> request \<Rightarrow> cacheItem \<Rightarrow> state \<Rightarrow> outcome \<times> state" where
  "putLocked e r item s =
     (if ContainsFile (cache s) (absFilePath item) then
        (Returned, logResponse e r 200 (discardUpload r s))
      else
        (let (ok, c) = EnsureSpace e (cache s) (ContentLength r);
             s1 = s\<lparr>cache := c\<rparr>
         in if \<not> ok then
              (Returned,
               errorLogger
                 (''The disk is full ('' @ decimalInt (CurrSize (cache s1)) @ ''/''
                    @ decimalInt (MaxSize (cache s1)) @ '' bytes used)'')
                 (httpError r ''The disk is full. File could not be uploaded.'' 507 s1))
            else
              (case saveToDisk e (Body r) (BodyErr r) item s1 of
                 (Fatal m, s2) \<Rightarrow> (Exited 1, s2)
               | (Ret (written, Some err), s2) \<Rightarrow>
                   (Returned,
                    errorLogger (''Error saving file: '' @ err) (httpError r err 500 s2))
               | (Ret (written, None), s2) \<Rightarrow>
                   (Returned,
                    logResponse e r 200
                      (WriteHeader 200
                        (s2\<lparr>cache := AddFile (cache s2) (absFilePath item) written\<rparr>))))))"

text \<open>
  The deferred calls of a handler run when it returns or panics, not when
  the process exits or the handler never gets past a lock.
\<close>

definition deferred :: "(state \<Rightarrow> state) \<Rightarrow> outcome \<times> state \<Rightarrow> outcome \<times> state" where
  "deferred f os =
     (case fst os of
        Exited n \<Rightarrow> os
      | Blocked \<Rightarrow> os
      | _ \<Rightarrow> (fst os, f (snd os)))"

text \<open>
  \<open>CacheHandler\<close> (lines 110 to 184).  \<open>err\<close> is the error variable of line
  125, \<open>nil\<close> (here \<open>None\<close>) once the path has been parsed; calling
  \<open>err.Error()\<close> on it panics before \<open>http.Error\<close> is entered.
\<close>

definition CacheHandler :: "env \<Rightarrow> request \<Rightarrow> state \<Rightarrow> outcome \<times> state" where
  "CacheHandler e r s =
     deferred (\<lambda>s'. s'\<lparr>bodyClosed := True\<rparr>)
       (case cacheItemFromRequestPath (Path r) (cacheDir (cache s)) of
          Inl msg \<Rightarrow> (Returned, logResponse e r 400 (httpError r msg 400 s))
        | Inr item \<Rightarrow>
            (let err = (None :: string option) in
             if Method r = ''GET'' then
               (if \<not> ContainsFile (cache s) (absFilePath item) then
                  (Returned, logResponse e r 404 (WriteHeader 404 s))
                else
                  (Returned, logResponse e r 200 (ServeFile r (absFilePath item) s)))
             else if Method r = ''PUT'' then
               (if ContainsFile (cache s) (absFilePath item) then
                  (Returned, logResponse e r 200 (discardUpload r s))
                else
                  (let (uploadMux, s1) = startUpload (absFilePath item) s
                   in if isLocked uploadMux s1 then (Blocked, s1)
                      else
                        deferred (stopUpload (absFilePath item))
                          (deferred (Unlock uploadMux)
                            (putLocked e r item (Lock uploadMux s1)))))
             else if Method r = ''HEAD'' then
               (if \<not> ContainsFile (cache s) (absFilePath item) then
                  (case err of
                     None \<Rightarrow> (Panicked nilDereference, s)
                   | Some msg \<Rightarrow>
                       (Returned,
                        logResponse e r 200
                          (WriteHeader 200
                            (logResponse e r 404 (httpError r msg 404 s)))))
                else
                  (Returned, logResponse e r 200 (WriteHeader 200 s)))
             else
               (Returned,
                logResponse e r 405
                  (httpError r (''Method '' @ [squote] @ EscapeString (Method r) @ [squote]
                                  @ '' not supported.'') 405 s))))"

text \<open>The state in which the next request starts: a fresh response writer.\<close>

definition nextRequest :: "state \<Rightarrow> state" where
  "nextRequest s = s\<lparr>wStatus := None, wBody := [], bodyRead := 0, bodyClosed := False\<rparr>"


section \<open>The shape of a key path\<close>

text \<open>
  A hash is 64 characters of the class \<open>[a-f0-9]\<close>.  \<open>okPrefix\<close> is what may
  stand before the bucket: nothing, or text that ends with a slash and holds
  no newline.
\<close>

definition isHash :: "string \<Rightarrow> bool" where
  "isHash h = (length h = 64 \<and> list_all (atomMatch hexClass) h)"

definition okPrefix :: "string \<Rightarrow> bool" where
  "okPrefix p = (p = [] \<or> (last p = CHR ''/'' \<and> newline \<notin> set p))"

text \<open>
  The shape the design gives for a key path: a prefix that is empty or ends
  with a slash, the bucket, the hash.
\<close>

definition keyParts :: "string \<Rightarrow> string \<Rightarrow> string \<Rightarrow> string \<Rightarrow> bool" where
  "keyParts url p b h =
     (url = p @ b @ h \<and> (p = [] \<or> last p = CHR ''/'') \<and> (b = ''ac/'' \<or> b = ''cas/'') \<and> isHash h)"

text \<open>Two parts of the pattern, named for the proofs about it.\<close>

definition keyTail :: regex where
  "keyTail = Seq (Group 2 (Alt (Lit ''ac/'') (Lit ''cas/'')))
                 (Group 3 (repeatN 64 (Atom hexClass)))"

definition midK :: "string \<Rightarrow> caps \<Rightarrow> caps option" where
  "midK s g = rmatch (Seq (Opt (Group 1 (Seq (Star AnyChar) (Lit ''/'')))) keyTail) s g atEnd"

text \<open>The text of the parser's first error.\<close>

definition malformedKey :: "string \<Rightarrow> string" where
  "malformedKey url = ''Resource name must be a SHA256 hash in hex. Got '' @ [squote]
                 @ EscapeString url @ [squote] @ ''.''"

section \<open>Cleaned paths as lists of elements\<close>

text \<open>
  \<open>segsOf r p\<close> is the stack of \<open>Clean\<close> after the whole of \<open>p\<close>, bottom
  first.  A plain name is a path element that \<open>Clean\<close> keeps as it is: not
  empty, without a separator, neither \<open>.\<close> nor \<open>..\<close>.  \<open>validStack\<close> is the
  invariant of the stack (top first): every element is a name or \<open>..\<close>, and
  \<open>..\<close> stands only at the bottom of a relative path.
\<close>

definition segsOf :: "bool \<Rightarrow> string \<Rightarrow> string list" where
  "segsOf r p = rev (foldl (cleanStep r) [] (splitOn (CHR ''/'') p))"

definition plainName :: "string \<Rightarrow> bool" where
  "plainName n = (n \<noteq> [] \<and> CHR ''/'' \<notin> set n \<and> n \<noteq> ''.'' \<and> n \<noteq> ''..'')"

fun validStack :: "bool \<Rightarrow> string list \<Rightarrow> bool" where
  "validStack r [] = True"
| "validStack r (x # acc) =
     (x \<noteq> [] \<and> CHR ''/'' \<notin> set x \<and> x \<noteq> ''.''
      \<and> (x = ''..'' \<longrightarrow> \<not> r \<and> (acc = [] \<or> hd acc = ''..''))
      \<and> validStack r acc)"

section \<open>A concrete server, for the examples\<close>

text \<open>
  An environment in which every operating-system call succeeds, the
  space-ensurer grants every request and leaves the index alone, and no
  address has a port.  Every request of the examples has the body \<open>abc\<close>,
  so the hasher receives \<open>abc\<close> or, when the first write to the temporary
  file fails, nothing; the digest function of the environment is SHA-256
  on these two inputs.  \<open>exAbc\<close> and \<open>exEmpty\<close> are the hexadecimal texts of
  the two digests, \<open>exZeros\<close> and \<open>exOther\<close> two other hashes.
\<close>

definition exAbcDigest :: string where
  "exAbcDigest =
     [CHR 0xba, CHR 0x78, CHR 0x16, CHR 0xbf, CHR 0x8f, CHR 0x01,
     CHR 0xcf, CHR 0xea, CHR 0x41, CHR 0x41, CHR 0x40, CHR 0xde, CHR 0x5d,
     CHR 0xae, CHR 0x22, CHR 0x23, CHR 0xb0, CHR 0x03, CHR 0x61, CHR 0xa3,
     CHR 0x96, CHR 0x17, CHR 0x7a, CHR 0x9c, CHR 0xb4, CHR 0x10, CHR 0xff,
     CHR 0x61, CHR 0xf2, CHR 0x00, CHR 0x15, CHR 0xad]"

definition exEmptyDigest :: string where
  "exEmptyDigest =
     [CHR 0xe3, CHR 0xb0, CHR 0xc4, CHR 0x42, CHR 0x98, CHR 0xfc,
     CHR 0x1c, CHR 0x14, CHR 0x9a, CHR 0xfb, CHR 0xf4, CHR 0xc8, CHR 0x99,
     CHR 0x6f, CHR 0xb9, CHR 0x24, CHR 0x27, CHR 0xae, CHR 0x41, CHR 0xe4,
     CHR 0x64, CHR 0x9b, CHR 0x93, CHR 0x4c, CHR 0xa4, CHR 0x95, CHR 0x99,
     CHR 0x1b, CHR 0x78, CHR 0x52, CHR 0xb8, CHR 0x55]"

definition exSha256 :: "string \<Rightarrow> string" where
  "exSha256 bs = (if bs = [] then exEmptyDigest else exAbcDigest)"

definition exAbc :: string where
  "exAbc = ''ba7816bf8f01cfea414140de5dae2223b00361a396177a9cb410ff61f20015ad''"

definition exEmpty :: string where
  "exEmpty = ''e3b0c44298fc1c149afbf4c8996fb92427ae41e4649b934ca495991b7852b855''"

definition exZeros :: string where
  "exZeros = ''0000000000000000000000000000000000000000000000000000000000000000''"

definition exOther :: string where
  "exOther = ''aaaaaaaaaaaaaaaaaaaaaaaaaaaaaaaaaaaaaaaaaaaaaaaaaaaaaaaaaaaaaaaa''"

definition exEnv :: env where
  "exEnv = \<lparr> EnsureSpace = (\<lambda>c n. (True, c)),
             sha256Sum = exSha256,
             SplitHostPort = (\<lambda>a. Inl ''missing port in address''),
             osTempDir = ''/tmp'',
             tempFileErr = None, tempFileRand = 123456789, copyFault = None,
             syncErr = None, renameErr = None, removeErr = None \<rparr>"

definition exCache :: cacheIndex where
  "exCache = \<lparr> cacheDir = ''/data'', entries = [], maxBytes = 100 \<rparr>"

definition exState :: state where
  "exState = \<lparr> cache = exCache,
               ongoingUploads = Map.empty, mutexes = [],
               accessLog = [], errorLog = [], stdLog = [],
               disk = Map.empty, calls = [],
               wStatus = None, wBody = [], bodyRead = 0, bodyClosed = False \<rparr>"

definition exRequest :: "string \<Rightarrow> string \<Rightarrow> request" where
  "exRequest m p = \<lparr> Method = m, Path = p, RemoteAddr = ''10.0.0.1'',
                      ContentLength = 3, Body = ''abc'', BodyErr = None \<rparr>"

definition exItem :: "string \<Rightarrow> string \<Rightarrow> cacheItem" where
  "exItem bucket h = \<lparr> hash = h, absFilePath = ''/data/'' @ bucket @ ''/'' @ h,
                       verifyHash = (bucket = ''cas'') \<rparr>"

section \<open>Properties of the pattern\<close>

lemma starA_sound:
  "starA a s k = Some r \<Longrightarrow>
   \<exists>n\<le>length s. list_all (atomMatch a) (take n s) \<and> k (drop n s) = Some r"
proof (induction s)
  case Nil
  then show ?case by simp
next
  case (Cons c cs)
  show ?case
  proof (cases "atomMatch a c \<and> starA a cs k = Some r")
    case True
    then obtain n where n: "n \<le> length cs" "list_all (atomMatch a) (take n cs)"
      "k (drop n cs) = Some r"
      using Cons.IH by blast
    then have "Suc n \<le> length (c # cs) \<and> list_all (atomMatch a) (take (Suc n) (c # cs))
      \<and> k (drop (Suc n) (c # cs)) = Some r"
      using True by simp
    then show ?thesis by blast
  next
    case False
    then have "k (c # cs) = Some r"
      using Cons.prems by (auto split: if_splits option.splits)
    then have "0 \<le> length (c # cs) \<and> list_all (atomMatch a) (take 0 (c # cs))
      \<and> k (drop 0 (c # cs)) = Some r"
      by simp
    then show ?thesis by blast
  qed
qed

lemma starA_complete:
  "n \<le> length s \<Longrightarrow> list_all (atomMatch a) (take n s) \<Longrightarrow> k (drop n s) = Some r
   \<Longrightarrow> \<exists>r'. starA a s k = Some r'"
proof (induction s arbitrary: n)
  case Nil
  then show ?case by simp
next
  case (Cons c cs)
  show ?case
  proof (cases n)
    case 0
    then have "k (c # cs) = Some r" using Cons.prems by simp
    then show ?thesis by (auto split: option.splits)
  next
    case (Suc m)
    then have "atomMatch a c" "\<exists>r'. starA a cs k = Some r'"
      using Cons.prems Cons.IH [of m] by auto
    then show ?thesis by auto
  qed
qed

lemma rmatch_repeatN:
  "rmatch (repeatN n (Atom a)) s g k =
     (if n \<le> length s \<and> list_all (atomMatch a) (take n s) then k (drop n s) g else None)"
proof (induction n arbitrary: s)
  case 0
  then show ?case by simp
next
  case (Suc n)
  show ?case
  proof (cases s)
    case Nil
    then show ?thesis by simp
  next
    case (Cons c cs)
    then show ?thesis using Suc.IH [of cs] by simp
  qed
qed

lemma take_lit: "(take (length l) s = l) = (\<exists>t. s = l @ t)"
  by (metis append_eq_conv_conj append_take_drop_id)

lemma rmatch_Lit_fail:
  "\<not> (\<exists>t. s = l @ t) \<Longrightarrow> rmatch (Lit l) s g k = None"
  using take_lit [of l s] by simp

lemma keyTail_ac:
  "rmatch keyTail (''ac/'' @ t) g atEnd =
     (if isHash t then Some (g(2 \<mapsto> ''ac/'', 3 \<mapsto> t)) else None)"
  unfolding keyTail_def by (simp add: rmatch_repeatN atEnd_def isHash_def)

lemma keyTail_cas:
  "rmatch keyTail (''cas/'' @ t) g atEnd =
     (if isHash t then Some (g(2 \<mapsto> ''cas/'', 3 \<mapsto> t)) else None)"
  unfolding keyTail_def by (simp add: rmatch_repeatN atEnd_def isHash_def)

lemma keyTail_other:
  assumes "\<not> (\<exists>t. s = ''ac/'' @ t)" and "\<not> (\<exists>t. s = ''cas/'' @ t)"
  shows "rmatch keyTail s g atEnd = None"
  unfolding keyTail_def
  using rmatch_Lit_fail [OF assms(1)] rmatch_Lit_fail [OF assms(2)]
  by (simp del: rmatch.simps(1))

lemma keyTail_sound:
  assumes "rmatch keyTail s g atEnd = Some g'"
  shows "\<exists>b h. s = b @ h \<and> (b = ''ac/'' \<or> b = ''cas/'') \<and> isHash h
           \<and> g' = g(2 \<mapsto> b, 3 \<mapsto> h)"
proof -
  consider (ac) t where "s = ''ac/'' @ t" | (cas) t where "s = ''cas/'' @ t"
    | (other) "\<not> (\<exists>t. s = ''ac/'' @ t)" "\<not> (\<exists>t. s = ''cas/'' @ t)"
    by blast
  then show ?thesis
  proof cases
    case ac
    then have "isHash t \<and> g' = g(2 \<mapsto> ''ac/'', 3 \<mapsto> t)"
      using assms keyTail_ac [of t g] by (simp split: if_splits)
    then show ?thesis using ac by blast
  next
    case cas
    then have "isHash t \<and> g' = g(2 \<mapsto> ''cas/'', 3 \<mapsto> t)"
      using assms keyTail_cas [of t g] by (simp split: if_splits)
    then show ?thesis using cas by blast
  next
    case other
    then show ?thesis using assms keyTail_other [of s g] by simp
  qed
qed

lemma keyTail_complete:
  assumes "b = ''ac/'' \<or> b = ''cas/''" and "isHash h"
  shows "rmatch keyTail (b @ h) g atEnd = Some (g(2 \<mapsto> b, 3 \<mapsto> h))"
  using assms keyTail_ac [of h g] keyTail_cas [of h g] by auto

lemma midK_sound:
  assumes "midK s g = Some g'"
  shows "\<exists>p b h. s = p @ b @ h \<and> okPrefix p \<and> (b = ''ac/'' \<or> b = ''cas/'') \<and> isHash h
           \<and> g' 2 = Some b \<and> g' 3 = Some h"
proof -
  let ?K = "\<lambda>s' g'. rmatch keyTail s' (g'(1 \<mapsto> take (length s - length s') s)) atEnd"
  let ?star = "starA AnyChar s (\<lambda>s1. rmatch (Lit ''/'') s1 g ?K)"
  have unfold: "midK s g = (case ?star of Some x \<Rightarrow> Some x | None \<Rightarrow> rmatch keyTail s g atEnd)"
    unfolding midK_def by (simp del: rmatch.simps(1))
  show ?thesis
  proof (cases ?star)
    case None
    then have "rmatch keyTail s g atEnd = Some g'" using assms unfold by simp
    from keyTail_sound [OF this] obtain b h where
      "s = [] @ b @ h" "b = ''ac/'' \<or> b = ''cas/''" "isHash h" "g' 2 = Some b" "g' 3 = Some h"
      by auto
    moreover have "okPrefix []" by (simp add: okPrefix_def)
    ultimately show ?thesis by blast
  next
    case (Some x)
    then have "?star = Some g'" using assms unfold by simp
    from starA_sound [OF this] obtain n where n: "n \<le> length s"
      "list_all (atomMatch AnyChar) (take n s)"
      "rmatch (Lit ''/'') (drop n s) g ?K = Some g'"
      by blast
    from n(3) obtain t where t: "drop n s = ''/'' @ t"
      using rmatch_Lit_fail [of "drop n s" "''/''" g ?K] by fastforce
    then have "rmatch keyTail t (g(1 \<mapsto> take (length s - length t) s)) atEnd = Some g'"
      using n(3) by simp
    from keyTail_sound [OF this] obtain b h where bh:
      "t = b @ h" "b = ''ac/'' \<or> b = ''cas/''" "isHash h" "g' 2 = Some b" "g' 3 = Some h"
      by auto
    have "s = (take n s @ ''/'') @ b @ h"
      using t bh(1) append_take_drop_id [of n s] by simp
    moreover have "okPrefix (take n s @ ''/'')"
      using n(2) by (auto simp: okPrefix_def list_all_iff newline_def)
    ultimately show ?thesis using bh by blast
  qed
qed

lemma midK_complete:
  assumes "okPrefix p" and "b = ''ac/'' \<or> b = ''cas/''" and "isHash h"
  shows "\<exists>g'. midK (p @ b @ h) g = Some g'"
proof -
  let ?s = "p @ b @ h"
  let ?K = "\<lambda>s' g'. rmatch keyTail s' (g'(1 \<mapsto> take (length ?s - length s') ?s)) atEnd"
  let ?star = "starA AnyChar ?s (\<lambda>s1. rmatch (Lit ''/'') s1 g ?K)"
  have unfold: "midK ?s g = (case ?star of Some x \<Rightarrow> Some x | None \<Rightarrow> rmatch keyTail ?s g atEnd)"
    unfolding midK_def by (simp del: rmatch.simps(1))
  show ?thesis
  proof (cases "p = []")
    case True
    then have "rmatch keyTail ?s g atEnd = Some (g(2 \<mapsto> b, 3 \<mapsto> h))"
      using keyTail_complete [OF assms(2,3)] by simp
    then show ?thesis unfolding unfold by (simp split: option.splits)
  next
    case False
    then have lp: "last p = CHR ''/''" and nl: "newline \<notin> set p"
      using assms(1) by (auto simp: okPrefix_def)
    define q where "q = butlast p"
    have p: "p = q @ ''/''"
      using False lp q_def by (metis append_butlast_last_id)
    have 1: "length q \<le> length ?s" by (simp add: p)
    have 2: "list_all (atomMatch AnyChar) (take (length q) ?s)"
      using nl by (auto simp: p list_all_iff)
    have 3: "rmatch (Lit ''/'') (drop (length q) ?s) g ?K
               = Some (g(1 \<mapsto> take (length ?s - length (b @ h)) ?s, 2 \<mapsto> b, 3 \<mapsto> h))"
      using keyTail_complete [OF assms(2,3)] by (simp add: p)
    from starA_complete [of "length q" ?s AnyChar "\<lambda>s1. rmatch (Lit ''/'') s1 g ?K", OF 1 2 3] obtain r' where "?star = Some r'" by blast
    then show ?thesis unfolding unfold by simp
  qed
qed

lemma blob_unfold:
  "rmatch blobNameSHA256 s g atEnd =
     (case rmatch (Lit ''/'') s g midK of Some x \<Rightarrow> Some x | None \<Rightarrow> midK s g)"
proof -
  have m: "midK = (\<lambda>s' g'. rmatch (Seq (Opt (Group 1 (Seq (Star AnyChar) (Lit ''/''))))
        (Seq (Group 2 (Alt (Lit ''ac/'') (Lit ''cas/'')))
             (Group 3 (repeatN 64 (Atom hexClass))))) s' g' atEnd)"
    by (intro ext) (simp only: midK_def keyTail_def)
  have "rmatch blobNameSHA256 s g atEnd = rmatch (Opt (Lit ''/'')) s g midK"
    unfolding blobNameSHA256_def m by (rule rmatch.simps(3))
  then show ?thesis by (simp only: rmatch.simps(5))
qed

lemma blob_sound:
  assumes "rmatch blobNameSHA256 s g atEnd = Some g'"
  shows "\<exists>p b h. s = p @ b @ h \<and> okPrefix p \<and> (b = ''ac/'' \<or> b = ''cas/'') \<and> isHash h
           \<and> g' 2 = Some b \<and> g' 3 = Some h"
proof (cases "rmatch (Lit ''/'') s g midK")
  case None
  then have "midK s g = Some g'" using assms by (simp only: blob_unfold option.case)
  from midK_sound [OF this] show ?thesis .
next
  case (Some x)
  then have x: "rmatch (Lit ''/'') s g midK = Some g'"
    using assms by (simp only: blob_unfold option.case)
  then obtain t where t: "s = ''/'' @ t"
    using rmatch_Lit_fail [of s "''/''" g midK] by fastforce
  then have "midK t g = Some g'" using x by simp
  from midK_sound [OF this] obtain p b h where
    "t = p @ b @ h" "okPrefix p" "b = ''ac/'' \<or> b = ''cas/''" "isHash h"
    "g' 2 = Some b" "g' 3 = Some h"
    by blast
  moreover from this have "s = (''/'' @ p) @ b @ h" "okPrefix (''/'' @ p)"
    using t by (auto simp: okPrefix_def newline_def)
  ultimately show ?thesis by blast
qed

lemma blob_complete:
  assumes "okPrefix p" and "b = ''ac/'' \<or> b = ''cas/''" and "isHash h"
  shows "\<exists>g'. rmatch blobNameSHA256 (p @ b @ h) g atEnd = Some g'"
  using midK_complete [OF assms, of g]
  by (auto simp only: blob_unfold split: option.splits)

section \<open>Properties of the key parser\<close>

lemma isHash_suffix:
  assumes "p @ h = p' @ h'" and "length h = length h'"
  shows "p = p' \<and> h = h'"
  using assms by (metis append_eq_append_conv)

lemma key_unique:
  assumes "p @ b @ h = p' @ b' @ h'" and "isHash h" and "isHash h'"
    and "b = ''ac/'' \<or> b = ''cas/''" and "b' = ''ac/'' \<or> b' = ''cas/''"
  shows "b = b' \<and> h = h'"
proof -
  have "(p @ b) @ h = (p' @ b') @ h'" using assms(1) by simp
  moreover have "length h = length h'" using assms(2,3) by (simp add: isHash_def)
  ultimately have e: "p @ b = p' @ b'" and h: "h = h'"
    using isHash_suffix [of "p @ b" h "p' @ b'" h'] by auto
  have "b = b'"
  proof (rule ccontr)
    assume ne: "b \<noteq> b'"
    then consider "b = ''ac/''" "b' = ''cas/''" | "b = ''cas/''" "b' = ''ac/''"
      using assms(4,5) by blast
    then show False
    proof cases
      case 1
      then have "(p @ ''a'') @ ''c/'' = (p' @ ''ca'') @ ''s/''" using e by simp
      then show False using isHash_suffix [of "p @ ''a''" "''c/''" "p' @ ''ca''" "''s/''"] by simp
    next
      case 2
      then have "(p @ ''ca'') @ ''s/'' = (p' @ ''a'') @ ''c/''" using e by simp
      then show False using isHash_suffix [of "p @ ''ca''" "''s/''" "p' @ ''a''" "''c/''"] by simp
    qed
  qed
  then show ?thesis using h by simp
qed

lemma parse_ok:
  assumes "okPrefix p" and "b = ''ac/'' \<or> b = ''cas/''" and "isHash h"
  shows "cacheItemFromRequestPath (p @ b @ h) baseDir =
           Inr \<lparr> hash = h, absFilePath = Join [baseDir, b, h], verifyHash = (b = ''cas/'') \<rparr>"
proof -
  from blob_complete [OF assms] obtain g where
    g: "rmatch blobNameSHA256 (p @ b @ h) Map.empty atEnd = Some g" by blast
  from blob_sound [OF g] obtain p' b' h' where
    s: "p @ b @ h = p' @ b' @ h'" "b' = ''ac/'' \<or> b' = ''cas/''" "isHash h'"
       "g 2 = Some b'" "g 3 = Some h'"
    by blast
  have "b = b' \<and> h = h'" using key_unique [OF s(1) assms(3) s(3) assms(2) s(2)] .
  then have "g 2 = Some b" "g 3 = Some h" using s by simp_all
  then show ?thesis
    unfolding cacheItemFromRequestPath_def FindStringSubmatch_def g
    by (simp add: groupText_def)
qed

lemma parse_fail:
  assumes "\<not> (\<exists>p b h. url = p @ b @ h \<and> okPrefix p \<and> (b = ''ac/'' \<or> b = ''cas/'') \<and> isHash h)"
  shows "cacheItemFromRequestPath url baseDir = Inl (malformedKey url)"
proof -
  have "rmatch blobNameSHA256 url Map.empty atEnd = None"
  proof (cases "rmatch blobNameSHA256 url Map.empty atEnd")
    case None
    then show ?thesis .
  next
    case (Some g)
    from blob_sound [OF this] assms show ?thesis by blast
  qed
  then show ?thesis
    unfolding cacheItemFromRequestPath_def FindStringSubmatch_def malformedKey_def by simp
qed

section \<open>Properties of \<open>Clean\<close>, \<open>Join\<close> and \<open>Dir\<close>\<close>

lemma splitOn_nonempty: "splitOn c s \<noteq> []"
  by (induction s) (auto split: list.splits)

lemma splitOn_plain: "c \<notin> set s \<Longrightarrow> splitOn c s = [s]"
  by (induction s) auto

lemma splitOn_append: "splitOn c (a @ c # b) = splitOn c a @ splitOn c b"
proof (induction a)
  case Nil
  then show ?case by simp
next
  case (Cons x xs)
  then show ?case using splitOn_nonempty [of c xs] by (auto split: list.splits)
qed

lemma splitOn_no_sep: "x \<in> set (splitOn c s) \<Longrightarrow> c \<notin> set x"
proof (induction s arbitrary: x)
  case Nil
  then show ?case by simp
next
  case (Cons y ys)
  then show ?case by (auto split: if_splits list.splits)
qed

lemma cleanStep_plain: "plainName n \<Longrightarrow> cleanStep r acc n = n # acc"
  by (simp add: cleanStep_def plainName_def)

lemma cleanStep_valid:
  "validStack r acc \<Longrightarrow> CHR ''/'' \<notin> set seg \<Longrightarrow> validStack r (cleanStep r acc seg)"
  by (cases acc) (auto simp: cleanStep_def)

lemma foldl_valid:
  "validStack r acc \<Longrightarrow> \<forall>x\<in>set xs. CHR ''/'' \<notin> set x
   \<Longrightarrow> validStack r (foldl (cleanStep r) acc xs)"
  by (induction xs arbitrary: acc) (simp_all add: cleanStep_valid)

lemma segsOf_valid: "validStack r (rev (segsOf r p))"
  unfolding segsOf_def using foldl_valid [of r "[]" "splitOn (CHR ''/'') p"] splitOn_no_sep
  by fastforce

lemma refold:
  "validStack r acc \<Longrightarrow> foldl (cleanStep r) [] (rev acc) = acc"
proof (induction acc)
  case Nil
  then show ?case by simp
next
  case (Cons x acc)
  then have "foldl (cleanStep r) [] (rev (x # acc)) = cleanStep r acc x" by simp
  also have "\<dots> = x # acc"
    using Cons.prems by (cases acc) (auto simp: cleanStep_def)
  finally show ?case .
qed

lemma joinWith_snoc:
  "xs \<noteq> [] \<Longrightarrow> joinWith sep (xs @ [y]) = joinWith sep xs @ sep @ y"
  by (induction sep xs rule: joinWith.induct) auto

lemma splitOn_joinWith:
  "xs \<noteq> [] \<Longrightarrow> \<forall>x\<in>set xs. c \<notin> set x \<Longrightarrow> splitOn c (joinWith [c] xs) = xs"
proof (induction "[c]" xs rule: joinWith.induct)
  case 1
  then show ?case by simp
next
  case (2 x)
  then show ?case by (simp add: splitOn_plain)
next
  case (3 x y ys)
  then have "splitOn c (x @ c # joinWith [c] (y # ys)) = [x] @ (y # ys)"
    unfolding splitOn_append by (simp add: splitOn_plain)
  then show ?case by simp
qed

lemma Clean_segsOf: "Clean p = render (isRooted p) (segsOf (isRooted p) p)"
  by (simp add: Clean_def cleanSegs_def segsOf_def)

lemma segsOf_append:
  "segsOf r (x @ CHR ''/'' # y) = rev (foldl (cleanStep r) (rev (segsOf r x)) (splitOn (CHR ''/'') y))"
  by (simp add: segsOf_def splitOn_append)

lemma segsOf_empty: "segsOf r [] = []"
  by (simp add: segsOf_def cleanStep_def)

lemma isRooted_append: "x \<noteq> [] \<Longrightarrow> isRooted (x @ y) = isRooted x"
  by (cases x) (simp_all add: isRooted_def)

lemma plainName_split: "plainName n \<Longrightarrow> splitOn (CHR ''/'') n = [n]"
  by (simp add: plainName_def splitOn_plain)

lemma segsOf_snoc:
  "plainName n \<Longrightarrow> segsOf r (x @ CHR ''/'' # n) = segsOf r x @ [n]"
  by (simp add: segsOf_append plainName_split cleanStep_plain)

lemma plainName_not_rooted: "plainName n \<Longrightarrow> n \<noteq> [] \<and> \<not> isRooted n"
  by (cases n) (auto simp: plainName_def isRooted_def)

lemma Join_empty_dir: "n \<noteq> [] \<Longrightarrow> Join [[], n] = Clean n"
  by (cases n) (simp_all add: Join_def)

lemma Join_nonempty_dir: "d \<noteq> [] \<Longrightarrow> Join [d, n] = Clean (d @ CHR ''/'' # n)"
  by (cases d) (simp_all add: Join_def)

lemma Join_dir_name:
  assumes "plainName n"
  shows "Join [d, n] = render (isRooted d) (segsOf (isRooted d) d @ [n])"
proof (cases "d = []")
  case True
  have n: "n \<noteq> []" "\<not> isRooted n"
    using plainName_not_rooted [OF assms] by simp_all
  have "segsOf False n = [n]"
    using assms by (simp add: segsOf_def plainName_split cleanStep_plain)
  then have "Clean n = render False [n]"
    using n by (simp add: Clean_segsOf)
  then show ?thesis
    using True n Join_empty_dir [of n] by (simp add: segsOf_empty isRooted_def)
next
  case False
  have "Clean (d @ CHR ''/'' # n) = render (isRooted d) (segsOf (isRooted d) d @ [n])"
    using False assms by (simp add: Clean_segsOf isRooted_append segsOf_snoc)
  then show ?thesis using Join_nonempty_dir [OF False, of n] by simp
qed

lemma render_snoc:
  "render r (S @ [a, n]) = render r (S @ [a]) @ ''/'' @ n"
  using joinWith_snoc [of "S @ [a]" "''/''" n] by (simp add: render_def)

lemma render_neq: "render r (S @ [n]) \<noteq> render r S" if "plainName n"
proof (cases "S = []")
  case True
  then show ?thesis using that by (cases n) (auto simp: render_def plainName_def)
next
  case False
  then have "length (render r (S @ [n])) > length (render r S)"
    using joinWith_snoc [of S "''/''" n] by (simp add: render_def)
  then show ?thesis by auto
qed

lemma dirPrefix_name:
  "CHR ''/'' \<notin> set n \<Longrightarrow>
   rev (dropWhile (\<lambda>c. c \<noteq> CHR ''/'') (rev (x @ CHR ''/'' # n))) = x @ ''/''"
  by (auto simp: dropWhile_append3)

lemma dirPrefix_plain:
  "CHR ''/'' \<notin> set n \<Longrightarrow> rev (dropWhile (\<lambda>c. c \<noteq> CHR ''/'') (rev n)) = []"
  by auto

lemma joinWith_head:
  "S \<noteq> [] \<Longrightarrow> hd S \<noteq> [] \<Longrightarrow> joinWith sep S \<noteq> [] \<and> hd (joinWith sep S) = hd (hd S)"
  by (induction sep S rule: joinWith.induct) auto

lemma validStack_elems:
  "validStack r acc \<Longrightarrow> x \<in> set acc \<Longrightarrow> x \<noteq> [] \<and> CHR ''/'' \<notin> set x"
  by (induction acc) auto

lemma segsOf_root: "segsOf r ''/'' = []"
  by (simp add: segsOf_def cleanStep_def)

lemma segs_refold:
  assumes "validStack r (rev S)"
  shows "segsOf r (joinWith ''/'' S @ ''/'') = S" and "S \<noteq> [] \<Longrightarrow> segsOf r (CHR ''/'' # joinWith ''/'' S @ ''/'') = S"
proof -
  have el: "\<forall>x\<in>set S. CHR ''/'' \<notin> set x"
    using validStack_elems [OF assms] by auto
  have fold: "foldl (cleanStep r) [] S = rev S"
    using refold [OF assms] by simp
  show "segsOf r (joinWith ''/'' S @ ''/'') = S"
  proof (cases "S = []")
    case True
    then show ?thesis by (simp add: segsOf_def cleanStep_def)
  next
    case False
    have "splitOn (CHR ''/'') (joinWith ''/'' S @ ''/'') = S @ [[]]"
      using splitOn_append [of "CHR ''/''" "joinWith ''/'' S" "[]"] splitOn_joinWith [OF False el]
      by simp
    then show ?thesis by (simp add: segsOf_def fold cleanStep_def)
  qed
  show "segsOf r (CHR ''/'' # joinWith ''/'' S @ ''/'') = S" if "S \<noteq> []"
  proof -
    have "splitOn (CHR ''/'') (CHR ''/'' # joinWith ''/'' S @ ''/'') = [] # S @ [[]]"
      using splitOn_append [of "CHR ''/''" "joinWith ''/'' S" "[]"] splitOn_joinWith [OF that el]
      by simp
    then show ?thesis by (simp add: segsOf_def fold cleanStep_def)
  qed
qed

lemma Dir_render:
  assumes "validStack r (rev S)" and "plainName n"
  shows "Dir (render r (S @ [n])) = render r S"
proof -
  have ns: "CHR ''/'' \<notin> set n" using assms(2) by (simp add: plainName_def)
  show ?thesis
  proof (cases "S = []")
    case True
    show ?thesis
    proof (cases r)
      case True
      have "Dir (CHR ''/'' # n) = Clean ''/''"
        unfolding Dir_def using dirPrefix_name [OF ns, of "[]"] by simp
      then show ?thesis
        using True \<open>S = []\<close>
        by (simp add: render_def Clean_segsOf isRooted_def segsOf_root)
    next
      case False
      have "Dir n = Clean []"
        by (simp only: Dir_def dirPrefix_plain [OF ns])
      then show ?thesis
        using False \<open>S = []\<close> by (simp add: render_def Clean_segsOf isRooted_def segsOf_empty)
    qed
  next
    case False
    note ne = this
    have js: "joinWith ''/'' (S @ [n]) = joinWith ''/'' S @ CHR ''/'' # n"
      using joinWith_snoc [OF ne, of "''/''" n] by simp
    show ?thesis
    proof (cases r)
      case True
      have "render r (S @ [n]) = (CHR ''/'' # joinWith ''/'' S) @ CHR ''/'' # n"
        using True js by (simp add: render_def)
      then have "Dir (render r (S @ [n])) = Clean (CHR ''/'' # joinWith ''/'' S @ ''/'')"
        unfolding Dir_def using dirPrefix_name [OF ns, of "CHR ''/'' # joinWith ''/'' S"] by simp
      also have "\<dots> = render True S"
        using segs_refold(2) [OF assms(1) ne] True by (simp add: Clean_segsOf isRooted_def)
      finally show ?thesis using True by simp
    next
      case False
      have hdS: "hd S \<in> set (rev S)" using ne by simp
      have "hd S \<noteq> []" "CHR ''/'' \<notin> set (hd S)"
        using validStack_elems [OF assms(1) hdS] by simp_all
      moreover from this have "hd (hd S) \<in> set (hd S)" by simp
      ultimately have "hd (hd S) \<noteq> CHR ''/''" by metis
      then have "joinWith ''/'' S \<noteq> []" "hd (joinWith ''/'' S) \<noteq> CHR ''/''"
        using joinWith_head [OF ne \<open>hd S \<noteq> []\<close>, of "''/''"] by simp_all
      then have nr: "\<not> isRooted (joinWith ''/'' S @ ''/'')"
        by (cases "joinWith ''/'' S") (simp_all add: isRooted_def)
      have "render r (S @ [n]) = joinWith ''/'' S @ CHR ''/'' # n"
        using False js by (simp add: render_def)
      then have "Dir (render r (S @ [n])) = Clean (joinWith ''/'' S @ ''/'')"
        unfolding Dir_def using dirPrefix_name [OF ns, of "joinWith ''/'' S"] by simp
      also have "\<dots> = render False S"
        using segs_refold(1) [OF assms(1)] False nr by (simp add: Clean_segsOf)
      finally show ?thesis using False by simp
    qed
  qed
qed

lemma Join_bucket_hash:
  assumes "plainName bn" and "plainName h"
  shows "Join [base, bn @ ''/'', h]
           = render (isRooted base) (segsOf (isRooted base) base @ [bn, h])"
proof -
  have sp: "splitOn (CHR ''/'') (bn @ CHR ''/'' # CHR ''/'' # h) = [bn, [], h]"
    using assms by (simp add: splitOn_append plainName_split)
  have st: "foldl (cleanStep r) acc [bn, [], h] = h # bn # acc" for r acc
    using assms by (simp add: cleanStep_plain) (simp add: cleanStep_def)
  show ?thesis
  proof (cases "base = []")
    case True
    have bn: "bn \<noteq> []" "\<not> isRooted bn" using plainName_not_rooted [OF assms(1)] by simp_all
    then have "Join [base, bn @ ''/'', h] = Clean (bn @ CHR ''/'' # CHR ''/'' # h)"
      using True by (cases bn) (simp_all add: Join_def)
    also have "\<dots> = render False (segsOf False (bn @ CHR ''/'' # CHR ''/'' # h))"
      using bn by (simp add: Clean_segsOf isRooted_append)
    also have "segsOf False (bn @ CHR ''/'' # CHR ''/'' # h) = [bn, h]"
      unfolding segsOf_def sp st by simp
    finally show ?thesis using True by (simp add: segsOf_empty isRooted_def)
  next
    case False
    then have "Join [base, bn @ ''/'', h] = Clean (base @ CHR ''/'' # (bn @ CHR ''/'' # CHR ''/'' # h))"
      by (cases base) (simp_all add: Join_def)
    also have "\<dots> = render (isRooted base)
        (segsOf (isRooted base) (base @ CHR ''/'' # (bn @ CHR ''/'' # CHR ''/'' # h)))"
      using False by (simp add: Clean_segsOf isRooted_append)
    also have "segsOf (isRooted base) (base @ CHR ''/'' # (bn @ CHR ''/'' # CHR ''/'' # h))
                 = segsOf (isRooted base) base @ [bn, h]"
      unfolding segsOf_append sp st by simp
    finally show ?thesis .
  qed
qed

lemma hexClass_no_slash: "atomMatch hexClass c \<Longrightarrow> c \<noteq> CHR ''/''"
  by (auto simp: hexClass_def)

lemma isHash_plain:
  assumes "isHash h"
  shows "plainName h"
proof -
  have len: "length h = 64" and hex: "\<forall>c\<in>set h. atomMatch hexClass c"
    using assms by (simp_all add: isHash_def list_all_iff)
  have "CHR ''/'' \<notin> set h" using hex hexClass_no_slash by blast
  moreover have "h \<noteq> []" "h \<noteq> ''.''" "h \<noteq> ''..''" using len by auto
  ultimately show ?thesis by (simp add: plainName_def)
qed

lemma bucket_plain: "plainName ''ac''" "plainName ''cas''"
  by (simp_all add: plainName_def)

lemma digitChar_digit: "n < 10 \<Longrightarrow> digitChar n \<in> set ''0123456789''"
  unfolding digitChar_def by (rule nth_mem) simp

lemma decimal_digits: "set (decimal n) \<subseteq> set ''0123456789''"
proof (induction n rule: decimal.induct)
  case (1 n)
  show ?case
  proof (cases "n < 10")
    case True
    then show ?thesis using digitChar_digit [of n] by (subst decimal.simps) simp
  next
    case False
    then have "n mod 10 < 10" by simp
    then show ?thesis
      using False 1 digitChar_digit [of "n mod 10"] by (subst decimal.simps) auto
  qed
qed

lemma upload_plain: "plainName (''upload'' @ decimal k)"
  using decimal_digits [of k] by (auto simp: plainName_def)

lemma keyParts_okPrefix:
  "(keyParts url p b h \<and> newline \<notin> set p)
     = (url = p @ b @ h \<and> okPrefix p \<and> (b = ''ac/'' \<or> b = ''cas/'') \<and> isHash h)"
  by (auto simp: keyParts_def okPrefix_def)

lemma handler_malformed:
  assumes "cacheItemFromRequestPath (Path r) (cacheDir (cache s)) = Inl msg" and "wStatus s = None"
  shows "fst (CacheHandler e r s) = Returned
       \<and> wStatus (snd (CacheHandler e r s)) = Some 400
       \<and> wBody (snd (CacheHandler e r s)) = wBody s @ (if Method r = ''HEAD'' then [] else msg @ [newline])"
  using assms
  by (simp add: CacheHandler_def deferred_def logResponse_def httpError_def Write_def
      WriteHeader_def Let_def split: sum.splits prod.splits)

lemma abs_in_bucket:
  assumes "plainName bn" and "isHash h"
  shows "Join [baseDir, bn @ ''/'', h] = Join [baseDir, bn] @ ''/'' @ h"
    and "Dir (Join [baseDir, bn @ ''/'', h]) = Join [baseDir, bn]"
    and "Join [baseDir, bn] \<noteq> Clean baseDir"
proof -
  let ?r = "isRooted baseDir"
  let ?S = "segsOf ?r baseDir"
  have h: "plainName h" using assms(2) by (rule isHash_plain)
  have j3: "Join [baseDir, bn @ ''/'', h] = render ?r (?S @ [bn, h])"
    using Join_bucket_hash [OF assms(1) h] .
  have j2: "Join [baseDir, bn] = render ?r (?S @ [bn])"
    using Join_dir_name [OF assms(1)] .
  show "Join [baseDir, bn @ ''/'', h] = Join [baseDir, bn] @ ''/'' @ h"
    unfolding j3 j2 by (rule render_snoc)
  have "validStack ?r (rev (?S @ [bn]))"
    using segsOf_valid [of ?r baseDir] assms(1) by (simp add: plainName_def)
  from Dir_render [OF this h]
  show "Dir (Join [baseDir, bn @ ''/'', h]) = Join [baseDir, bn]"
    unfolding j3 j2 by simp
  show "Join [baseDir, bn] \<noteq> Clean baseDir"
    unfolding j2 Clean_segsOf using render_neq [OF assms(1)] by simp
qed

lemma parse_sound:
  assumes "cacheItemFromRequestPath url baseDir = Inr item"
  shows "\<exists>p b. url = p @ b @ hash item \<and> okPrefix p \<and> (b = ''ac/'' \<or> b = ''cas/'')
           \<and> isHash (hash item) \<and> absFilePath item = Join [baseDir, b, hash item]
           \<and> verifyHash item = (b = ''cas/'')"
proof (cases "\<exists>p b h. url = p @ b @ h \<and> okPrefix p \<and> (b = ''ac/'' \<or> b = ''cas/'') \<and> isHash h")
  case True
  then obtain p b h where d: "url = p @ b @ h" "okPrefix p" "b = ''ac/'' \<or> b = ''cas/''" "isHash h"
    by blast
  have "item = \<lparr> hash = h, absFilePath = Join [baseDir, b, h], verifyHash = (b = ''cas/'') \<rparr>"
    using parse_ok [OF d(2,3,4), of baseDir] assms d(1) by simp
  then show ?thesis using d by auto
next
  case False
  from parse_fail [OF this, of baseDir] assms show ?thesis by simp
qed

section \<open>Properties of the handler's steps\<close>

lemma startUpload_fresh:
  "ongoingUploads s p = None \<Longrightarrow>
   startUpload p s = (length (mutexes s),
      s\<lparr>mutexes := mutexes s @ [False], ongoingUploads := (ongoingUploads s)(p \<mapsto> length (mutexes s))\<rparr>)"
  by (simp add: startUpload_def)

lemma deferred_simps:
  "deferred f (Returned, s) = (Returned, f s)"
  "deferred f (Panicked m, s) = (Panicked m, f s)"
  "deferred f (Exited n, s) = (Exited n, s)"
  "deferred f (Blocked, s) = (Blocked, s)"
  by (simp_all add: deferred_def)

lemma CacheHandler_put_absent:
  assumes "cacheItemFromRequestPath (Path r) (cacheDir (cache s)) = Inr item"
    and "Method r = ''PUT''"
    and "\<not> ContainsFile (cache s) (absFilePath item)"
    and "ongoingUploads s (absFilePath item) = None"
  shows "CacheHandler e r s =
     deferred (\<lambda>s'. s'\<lparr>bodyClosed := True\<rparr>)
       (deferred (stopUpload (absFilePath item))
         (deferred (Unlock (length (mutexes s)))
           (putLocked e r item
             (Lock (length (mutexes s))
               (s\<lparr>mutexes := mutexes s @ [False],
                  ongoingUploads := (ongoingUploads s)(absFilePath item \<mapsto> length (mutexes s))\<rparr>)))))"
  using assms
  by (simp add: CacheHandler_def startUpload_fresh isLocked_def)

lemma fsCall_fields [simp]:
  "cache (fsCall c s) = cache s" "ongoingUploads (fsCall c s) = ongoingUploads s"
  "mutexes (fsCall c s) = mutexes s" "accessLog (fsCall c s) = accessLog s"
  "errorLog (fsCall c s) = errorLog s" "stdLog (fsCall c s) = stdLog s"
  "disk (fsCall c s) = disk s" "calls (fsCall c s) = calls s @ [c]"
  "wStatus (fsCall c s) = wStatus s" "wBody (fsCall c s) = wBody s"
  "bodyRead (fsCall c s) = bodyRead s" "bodyClosed (fsCall c s) = bodyClosed s"
  by (simp_all add: fsCall_def)

lemma logPrintf_fields [simp]:
  "cache (logPrintf l s) = cache s" "ongoingUploads (logPrintf l s) = ongoingUploads s"
  "mutexes (logPrintf l s) = mutexes s" "accessLog (logPrintf l s) = accessLog s"
  "errorLog (logPrintf l s) = errorLog s" "stdLog (logPrintf l s) = stdLog s @ [l]"
  "disk (logPrintf l s) = disk s" "calls (logPrintf l s) = calls s"
  "wStatus (logPrintf l s) = wStatus s" "wBody (logPrintf l s) = wBody s"
  "bodyRead (logPrintf l s) = bodyRead s" "bodyClosed (logPrintf l s) = bodyClosed s"
  by (simp_all add: logPrintf_def)

lemma errorLogger_fields [simp]:
  "cache (errorLogger l s) = cache s" "ongoingUploads (errorLogger l s) = ongoingUploads s"
  "mutexes (errorLogger l s) = mutexes s" "accessLog (errorLogger l s) = accessLog s"
  "errorLog (errorLogger l s) = errorLog s @ [l]" "stdLog (errorLogger l s) = stdLog s"
  "disk (errorLogger l s) = disk s" "calls (errorLogger l s) = calls s"
  "wStatus (errorLogger l s) = wStatus s" "wBody (errorLogger l s) = wBody s"
  "bodyRead (errorLogger l s) = bodyRead s" "bodyClosed (errorLogger l s) = bodyClosed s"
  by (simp_all add: errorLogger_def)

lemma logResponse_fields [simp]:
  "cache (logResponse e r n s) = cache s" "ongoingUploads (logResponse e r n s) = ongoingUploads s"
  "mutexes (logResponse e r n s) = mutexes s"
  "errorLog (logResponse e r n s) = errorLog s" "stdLog (logResponse e r n s) = stdLog s"
  "disk (logResponse e r n s) = disk s" "calls (logResponse e r n s) = calls s"
  "wStatus (logResponse e r n s) = wStatus s" "wBody (logResponse e r n s) = wBody s"
  "bodyRead (logResponse e r n s) = bodyRead s" "bodyClosed (logResponse e r n s) = bodyClosed s"
  "length (accessLog (logResponse e r n s)) = Suc (length (accessLog s))"
  by (simp_all add: logResponse_def Let_def)

lemma WriteHeader_fields [simp]:
  "cache (WriteHeader n s) = cache s" "ongoingUploads (WriteHeader n s) = ongoingUploads s"
  "mutexes (WriteHeader n s) = mutexes s" "accessLog (WriteHeader n s) = accessLog s"
  "errorLog (WriteHeader n s) = errorLog s" "stdLog (WriteHeader n s) = stdLog s"
  "disk (WriteHeader n s) = disk s" "calls (WriteHeader n s) = calls s"
  "wBody (WriteHeader n s) = wBody s"
  "bodyRead (WriteHeader n s) = bodyRead s" "bodyClosed (WriteHeader n s) = bodyClosed s"
  "wStatus (WriteHeader n s) = (case wStatus s of None \<Rightarrow> Some n | Some m \<Rightarrow> Some m)"
  by (simp_all add: WriteHeader_def split: option.splits)

lemma httpError_fields [simp]:
  "cache (httpError r m n s) = cache s" "ongoingUploads (httpError r m n s) = ongoingUploads s"
  "mutexes (httpError r m n s) = mutexes s" "accessLog (httpError r m n s) = accessLog s"
  "errorLog (httpError r m n s) = errorLog s" "stdLog (httpError r m n s) = stdLog s"
  "disk (httpError r m n s) = disk s" "calls (httpError r m n s) = calls s"
  "bodyRead (httpError r m n s) = bodyRead s" "bodyClosed (httpError r m n s) = bodyClosed s"
  "wStatus (httpError r m n s) = (case wStatus s of None \<Rightarrow> Some n | Some k \<Rightarrow> Some k)"
  "wBody (httpError r m n s) = wBody s @ (if Method r = ''HEAD'' then [] else m @ [newline])"
  by (simp_all add: httpError_def Write_def WriteHeader_def Let_def split: option.splits)

lemma Lock_fields [simp]:
  "cache (Lock a s) = cache s" "ongoingUploads (Lock a s) = ongoingUploads s"
  "mutexes (Lock a s) = (mutexes s)[a := True]" "accessLog (Lock a s) = accessLog s"
  "errorLog (Lock a s) = errorLog s" "stdLog (Lock a s) = stdLog s"
  "disk (Lock a s) = disk s" "calls (Lock a s) = calls s"
  "wStatus (Lock a s) = wStatus s" "wBody (Lock a s) = wBody s"
  "bodyRead (Lock a s) = bodyRead s" "bodyClosed (Lock a s) = bodyClosed s"
  by (simp_all add: Lock_def)

lemma Unlock_fields [simp]:
  "cache (Unlock a s) = cache s" "ongoingUploads (Unlock a s) = ongoingUploads s"
  "mutexes (Unlock a s) = (mutexes s)[a := False]" "accessLog (Unlock a s) = accessLog s"
  "errorLog (Unlock a s) = errorLog s" "stdLog (Unlock a s) = stdLog s"
  "disk (Unlock a s) = disk s" "calls (Unlock a s) = calls s"
  "wStatus (Unlock a s) = wStatus s" "wBody (Unlock a s) = wBody s"
  "bodyRead (Unlock a s) = bodyRead s" "bodyClosed (Unlock a s) = bodyClosed s"
  by (simp_all add: Unlock_def)

lemma stopUpload_fields [simp]:
  "cache (stopUpload p s) = cache s" "ongoingUploads (stopUpload p s) = (ongoingUploads s)(p := None)"
  "mutexes (stopUpload p s) = mutexes s" "accessLog (stopUpload p s) = accessLog s"
  "errorLog (stopUpload p s) = errorLog s" "stdLog (stopUpload p s) = stdLog s"
  "disk (stopUpload p s) = disk s" "calls (stopUpload p s) = calls s"
  "wStatus (stopUpload p s) = wStatus s" "wBody (stopUpload p s) = wBody s"
  "bodyRead (stopUpload p s) = bodyRead s" "bodyClosed (stopUpload p s) = bodyClosed s"
  by (simp_all add: stopUpload_def)

lemma discardUpload_fields [simp]:
  "cache (discardUpload r s) = cache s" "ongoingUploads (discardUpload r s) = ongoingUploads s"
  "mutexes (discardUpload r s) = mutexes s" "accessLog (discardUpload r s) = accessLog s"
  "errorLog (discardUpload r s) = errorLog s" "stdLog (discardUpload r s) = stdLog s"
  "disk (discardUpload r s) = disk s" "calls (discardUpload r s) = calls s"
  "wStatus (discardUpload r s) = (case wStatus s of None \<Rightarrow> Some 200 | Some k \<Rightarrow> Some k)"
  "wBody (discardUpload r s) = wBody s"
  "bodyRead (discardUpload r s) = length (Body r)" "bodyClosed (discardUpload r s) = bodyClosed s"
  by (simp_all add: discardUpload_def WriteHeader_def split: option.splits)

lemma osRemove_fields [simp]:
  "cache (snd (osRemove e p s)) = cache s" "ongoingUploads (snd (osRemove e p s)) = ongoingUploads s"
  "mutexes (snd (osRemove e p s)) = mutexes s" "accessLog (snd (osRemove e p s)) = accessLog s"
  "errorLog (snd (osRemove e p s)) = errorLog s" "stdLog (snd (osRemove e p s)) = stdLog s"
  "calls (snd (osRemove e p s)) = calls s @ [OsRemove p]"
  "wStatus (snd (osRemove e p s)) = wStatus s" "wBody (snd (osRemove e p s)) = wBody s"
  "bodyRead (snd (osRemove e p s)) = bodyRead s" "bodyClosed (snd (osRemove e p s)) = bodyClosed s"
  "disk (snd (osRemove e p s)) = (if removeErr e = None then (disk s)(p := None) else disk s)"
  by (auto simp: osRemove_def Let_def split: option.splits)

text \<open>What \<open>saveToDisk\<close> never touches.\<close>

lemma saveToDisk_frame:
  "cache (snd (saveToDisk e c ce i s)) = cache s"
  "ongoingUploads (snd (saveToDisk e c ce i s)) = ongoingUploads s"
  "mutexes (snd (saveToDisk e c ce i s)) = mutexes s"
  "accessLog (snd (saveToDisk e c ce i s)) = accessLog s"
  "errorLog (snd (saveToDisk e c ce i s)) = errorLog s"
  "wStatus (snd (saveToDisk e c ce i s)) = wStatus s"
  "wBody (snd (saveToDisk e c ce i s)) = wBody s"
  "bodyClosed (snd (saveToDisk e c ce i s)) = bodyClosed s"
  by (simp_all add: saveToDisk_def ioutilTempFile_def Let_def case_prod_beta
      split: option.splits sum.splits)

lemma saveToDisk_mismatch:
  assumes "tempFileErr e = None" and "disk s (tempFileName e (cacheDir (cache s)) ''upload'') = None"
    and "verifyHash info"
    and "hash info \<noteq> EncodeToString (sha256Sum e (hashedBytes e content))"
  shows "fst (saveToDisk e content cerr info s) =
           Ret (0, Some (hashMismatch (hash info)
                  (EncodeToString (sha256Sum e (hashedBytes e content)))))"
    and "calls (snd (saveToDisk e content cerr info s)) = calls s @
           [OsTempFile (cacheDir (cache s)) ''upload'',
            OsWrite (tempFileName e (cacheDir (cache s)) ''upload'') (fst (ioCopy e content cerr)),
            OsRemove (tempFileName e (cacheDir (cache s)) ''upload'')]"
    and "disk (snd (saveToDisk e content cerr info s)) =
           (if removeErr e = None then disk s
            else (disk s)(tempFileName e (cacheDir (cache s)) ''upload'' \<mapsto> fst (ioCopy e content cerr)))"
  using assms
  by (auto simp: saveToDisk_def ioutilTempFile_def Let_def case_prod_beta)

lemma putLocked_save_error:
  assumes "\<not> ContainsFile (cache s) (absFilePath item)"
    and "EnsureSpace e (cache s) (ContentLength r) = (True, c)"
    and "fst (saveToDisk e (Body r) (BodyErr r) item (s\<lparr>cache := c\<rparr>)) = Ret (w, Some msg)"
  shows "putLocked e r item s =
     (Returned, errorLogger (''Error saving file: '' @ msg)
        (httpError r msg 500 (snd (saveToDisk e (Body r) (BodyErr r) item (s\<lparr>cache := c\<rparr>)))))"
  using assms
  by (cases "saveToDisk e (Body r) (BodyErr r) item (s\<lparr>cache := c\<rparr>)")
     (simp add: putLocked_def)

lemma nextRequest_fields [simp]:
  "cache (nextRequest s) = cache s" "ongoingUploads (nextRequest s) = ongoingUploads s"
  "mutexes (nextRequest s) = mutexes s" "accessLog (nextRequest s) = accessLog s"
  "errorLog (nextRequest s) = errorLog s" "stdLog (nextRequest s) = stdLog s"
  "disk (nextRequest s) = disk s" "calls (nextRequest s) = calls s"
  "wStatus (nextRequest s) = None" "wBody (nextRequest s) = []"
  "bodyRead (nextRequest s) = 0" "bodyClosed (nextRequest s) = False"
  by (simp_all add: nextRequest_def)

lemma CacheHandler_get_absent:
  assumes "cacheItemFromRequestPath (Path r) (cacheDir (cache s)) = Inr item"
    and "Method r = ''GET''"
    and "\<not> ContainsFile (cache s) (absFilePath item)"
  shows "CacheHandler e r s = (Returned, (logResponse e r 404 (WriteHeader 404 s))\<lparr>bodyClosed := True\<rparr>)"
  using assms by (simp add: CacheHandler_def deferred_simps)

lemma last_element:
  assumes "CHR ''/'' \<notin> set n" and "X = [] \<or> last X = CHR ''/''"
  shows "rev (takeWhile (\<lambda>c. c \<noteq> CHR ''/'') (rev (X @ n))) = n"
proof (cases "X = []")
  case True
  have "takeWhile (\<lambda>c. c \<noteq> CHR ''/'') (rev n) = rev n"
    using assms(1) by (intro takeWhile_eq_all_conv [THEN iffD2]) auto
  then show ?thesis unfolding True by (simp only: append_Nil rev_rev_ident)
next
  case False
  then have "X = butlast X @ ''/''" using assms(2) by (metis append_butlast_last_id)
  then obtain X' where X': "X = X' @ ''/''" ..
  have "takeWhile (\<lambda>c. c \<noteq> CHR ''/'') (rev n @ CHR ''/'' # rev X') = rev n"
    using assms(1) by (intro takeWhile_tail [THEN trans]) auto
  then show ?thesis unfolding X' by (simp only: rev_append rev.simps append_Nil append_Cons append_assoc rev_rev_ident)
qed

lemma render_last:
  assumes "plainName n"
  shows "\<exists>X. render r (S @ [n]) = X @ n \<and> (X = [] \<or> last X = CHR ''/'')"
proof (cases "S = []")
  case True
  show ?thesis
  proof (cases r)
    case True
    have "render r (S @ [n]) = ''/'' @ n" using True \<open>S = []\<close> by (simp add: render_def)
    then show ?thesis by (intro exI [of _ "''/''"]) simp
  next
    case False
    have "render r (S @ [n]) = [] @ n" using False \<open>S = []\<close> by (simp add: render_def)
    then show ?thesis by (intro exI [of _ "[]"]) simp
  qed
next
  case False
  have "render r (S @ [n]) = (render r S @ ''/'') @ n"
    using False joinWith_snoc [OF False, of "''/''" n] by (simp add: render_def)
  then show ?thesis by (intro exI [of _ "render r S @ ''/''"]) simp
qed

lemma render_last_eq:
  assumes "plainName n" and "plainName m" and "render r (S @ [n]) = render r' (S' @ [m])"
  shows "n = m"
proof -
  from render_last [OF assms(1)] obtain X where
    X: "render r (S @ [n]) = X @ n" "X = [] \<or> last X = CHR ''/''" by blast
  from render_last [OF assms(2)] obtain Y where
    Y: "render r' (S' @ [m]) = Y @ m" "Y = [] \<or> last Y = CHR ''/''" by blast
  have "n = rev (takeWhile (\<lambda>c. c \<noteq> CHR ''/'') (rev (X @ n)))"
    using last_element [OF _ X(2), of n] assms(1) by (simp add: plainName_def)
  also have "\<dots> = rev (takeWhile (\<lambda>c. c \<noteq> CHR ''/'') (rev (Y @ m)))"
    using X(1) Y(1) assms(3) by simp
  also have "\<dots> = m"
    using last_element [OF _ Y(2), of m] assms(2) by (simp add: plainName_def)
  finally show ?thesis .
qed

lemma upload_not_hash: "isHash h \<Longrightarrow> ''upload'' @ decimal k \<noteq> h"
  by (auto simp: isHash_def hexClass_def)

lemma tmp_not_destination:
  assumes "cacheItemFromRequestPath url baseDir = Inr item"
  shows "tempFileName e dir ''upload'' \<noteq> absFilePath item"
proof
  assume eq: "tempFileName e dir ''upload'' = absFilePath item"
  from parse_sound [OF assms] obtain b where
    b: "b = ''ac/'' \<or> b = ''cas/''" "isHash (hash item)"
       "absFilePath item = Join [baseDir, b, hash item]"
    by blast
  then obtain bn where bn: "plainName bn" "b = bn @ ''/''"
    using bucket_plain by auto
  have "absFilePath item = render (isRooted baseDir) ((segsOf (isRooted baseDir) baseDir @ [bn]) @ [hash item])"
    using Join_bucket_hash [OF bn(1) isHash_plain [OF b(2)], of baseDir] b(3) bn(2) by simp
  moreover have "\<exists>d. tempFileName e dir ''upload''
      = render (isRooted d) (segsOf (isRooted d) d @ [''upload'' @ decimal (tempFileRand e)])"
    unfolding tempFileName_def using Join_dir_name [OF upload_plain] by blast
  ultimately have "''upload'' @ decimal (tempFileRand e) = hash item"
    using eq render_last_eq [OF upload_plain isHash_plain [OF b(2)]] by metis
  then show False using upload_not_hash [OF b(2)] by simp
qed

lemma startUpload_fields [simp]:
  "cache (snd (startUpload p s)) = cache s" "accessLog (snd (startUpload p s)) = accessLog s"
  "errorLog (snd (startUpload p s)) = errorLog s" "stdLog (snd (startUpload p s)) = stdLog s"
  "disk (snd (startUpload p s)) = disk s" "calls (snd (startUpload p s)) = calls s"
  "wStatus (snd (startUpload p s)) = wStatus s" "wBody (snd (startUpload p s)) = wBody s"
  "bodyRead (snd (startUpload p s)) = bodyRead s" "bodyClosed (snd (startUpload p s)) = bodyClosed s"
  by (simp_all add: startUpload_def split: option.splits)


lemma CacheHandler_put_general:
  assumes "cacheItemFromRequestPath (Path r) (cacheDir (cache s)) = Inr item"
    and "Method r = ''PUT''"
    and "\<not> ContainsFile (cache s) (absFilePath item)"
  shows "CacheHandler e r s =
     (if isLocked (fst (startUpload (absFilePath item) s)) (snd (startUpload (absFilePath item) s))
      then (Blocked, snd (startUpload (absFilePath item) s))
      else deferred (\<lambda>s'. s'\<lparr>bodyClosed := True\<rparr>)
             (deferred (stopUpload (absFilePath item))
               (deferred (Unlock (fst (startUpload (absFilePath item) s)))
                 (putLocked e r item
                   (Lock (fst (startUpload (absFilePath item) s))
                         (snd (startUpload (absFilePath item) s)))))))"
  using assms by (simp add: CacheHandler_def deferred_simps case_prod_beta)


lemma putLocked_refused:
  assumes "\<not> ContainsFile (cache s) (absFilePath item)"
    and "EnsureSpace e (cache s) (ContentLength r) = (False, c)"
  shows "putLocked e r item s =
     (Returned,
      errorLogger (''The disk is full ('' @ decimalInt (CurrSize c) @ ''/''
                     @ decimalInt (MaxSize c) @ '' bytes used)'')
        (httpError r ''The disk is full. File could not be uploaded.'' 507 (s\<lparr>cache := c\<rparr>)))"
  using assms by (simp add: putLocked_def)


lemma putLocked_saved:
  assumes "\<not> ContainsFile (cache s) (absFilePath item)"
    and "EnsureSpace e (cache s) (ContentLength r) = (True, c)"
    and "fst (saveToDisk e (Body r) (BodyErr r) item (s\<lparr>cache := c\<rparr>)) = Ret (w, None)"
  shows "putLocked e r item s =
     (Returned,
      logResponse e r 200
        (WriteHeader 200
          ((snd (saveToDisk e (Body r) (BodyErr r) item (s\<lparr>cache := c\<rparr>)))
             \<lparr>cache := AddFile
                (cache (snd (saveToDisk e (Body r) (BodyErr r) item (s\<lparr>cache := c\<rparr>))))
                (absFilePath item) w\<rparr>)))"
  using assms
  by (cases "saveToDisk e (Body r) (BodyErr r) item (s\<lparr>cache := c\<rparr>)")
     (simp add: putLocked_def)


lemma AddFile_fields [simp]:
  "ContainsFile (AddFile c p n) p" "cacheDir (AddFile c p n) = cacheDir c"
  by (simp_all add: AddFile_def ContainsFile_def)




lemma locked_state:
  assumes "ongoingUploads s p = None"
  shows "fst (startUpload p s) = length (mutexes s)"
    and "mutexes (Lock (length (mutexes s)) (snd (startUpload p s))) = mutexes s @ [True]"
    and "ongoingUploads (Lock (length (mutexes s)) (snd (startUpload p s)))
           = (ongoingUploads s)(p \<mapsto> length (mutexes s))"
    and "\<not> isLocked (length (mutexes s)) (snd (startUpload p s))"
  using assms by (simp_all add: startUpload_def isLocked_def)

lemma saveToDisk_rename_fails:
  assumes "tempFileErr e = None" and "disk s (tempFileName e (cacheDir (cache s)) ''upload'') = None"
    and "\<not> (verifyHash info \<and> hash info \<noteq> EncodeToString (sha256Sum e (hashedBytes e content)))"
    and "snd (ioCopy e content cerr) = None"
    and "syncErr e = None"
    and "renameErr e = Some err2"
  shows "fst (saveToDisk e content cerr info s) = Ret (0, Some err2)"
    and "calls (snd (saveToDisk e content cerr info s)) = calls s @
           [OsTempFile (cacheDir (cache s)) ''upload'',
            OsWrite (tempFileName e (cacheDir (cache s)) ''upload'') (fst (ioCopy e content cerr)),
            OsSync (tempFileName e (cacheDir (cache s)) ''upload''),
            OsClose (tempFileName e (cacheDir (cache s)) ''upload''),
            OsRename (tempFileName e (cacheDir (cache s)) ''upload'') (absFilePath info),
            OsRemove (absFilePath info)]"
    and "stdLog (snd (saveToDisk e content cerr info s)) = stdLog s @
           (''Failed renaming '' @ tempFileName e (cacheDir (cache s)) ''upload''
              @ '' to its final destination '' @ absFilePath info @ '': '' @ err2)
           # (case fst (osRemove e (absFilePath info)
                   (s\<lparr>disk := (disk s)(tempFileName e (cacheDir (cache s)) ''upload''
                                    \<mapsto> fst (ioCopy e content cerr))\<rparr>)) of
                None \<Rightarrow> []
              | Some m \<Rightarrow>
                  [''Failed cleaning up '' @ tempFileName e (cacheDir (cache s)) ''upload''
                     @ '' after a failure to rename it to its final destination: '' @ m])"
  using assms
  by (auto simp: saveToDisk_def ioutilTempFile_def osRemove_def Let_def case_prod_beta
      split: option.splits)

lemma osRemove_result:
  "fst (osRemove e p s) =
     (case removeErr e of
        Some m \<Rightarrow> Some m
      | None \<Rightarrow>
          (case disk s p of
             None \<Rightarrow> Some (''remove '' @ p @ '': no such file or directory'')
           | Some bs \<Rightarrow> None))"
  by (simp add: osRemove_def Let_def split: option.splits)

section \<open>The concrete server evaluated\<close>

lemma ex_hashes: "isHash exZeros" "isHash exOther"
  by (simp_all add: isHash_def exZeros_def exOther_def hexClass_def)

lemma ex_hashes_real: "isHash exAbc" "isHash exEmpty"
  by (simp_all add: isHash_def exAbc_def exEmpty_def hexClass_def)

lemma ex_digest:
  "EncodeToString (sha256Sum exEnv ''abc'') = exAbc"
  "EncodeToString (sha256Sum exEnv []) = exEmpty"
  by (simp_all add: exEnv_def exSha256_def exAbcDigest_def exEmptyDigest_def exAbc_def
      exEmpty_def EncodeToString_def hexDigit_def)

lemma hashedBytes_whole:
  "snd (ioCopy e c ce) = None \<Longrightarrow> hashedBytes e c = fst (ioCopy e c ce)"
  by (auto simp: ioCopy_def hashedBytes_def split: option.splits if_splits)

lemma hashedBytes_nofault: "copyFault e = None \<Longrightarrow> hashedBytes e c = c"
  by (simp add: hashedBytes_def)

lemma ex_join:
  assumes "isHash h"
  shows "Join [''/data'', ''cas/'', h] = ''/data/cas/'' @ h"
    and "Join [''/data'', ''ac/'', h] = ''/data/ac/'' @ h"
proof -
  have "Join [''/data'', ''cas''] = ''/data/cas''" "Join [''/data'', ''ac''] = ''/data/ac''"
    by (simp_all add: Join_def Clean_def cleanSegs_def isRooted_def cleanStep_def render_def)
  then show "Join [''/data'', ''cas/'', h] = ''/data/cas/'' @ h"
    and "Join [''/data'', ''ac/'', h] = ''/data/ac/'' @ h"
    using abs_in_bucket(1) [OF bucket_plain(2) assms, of "''/data''"]
      abs_in_bucket(1) [OF bucket_plain(1) assms, of "''/data''"]
    by simp_all
qed

lemma ex_parse:
  assumes "isHash h"
  shows "cacheItemFromRequestPath (''/cas/'' @ h) ''/data'' = Inr (exItem ''cas'' h)"
    and "cacheItemFromRequestPath (''/ac/'' @ h) ''/data'' = Inr (exItem ''ac'' h)"
  using parse_ok [of "''/''" "''cas/''" h "''/data''"] parse_ok [of "''/''" "''ac/''" h "''/data''"]
    assms ex_join [OF assms]
  by (simp_all add: okPrefix_def newline_def exItem_def)

section \<open>The paths through the writer and the handler\<close>

lemma parsed_path_in_bucket:
  assumes "cacheItemFromRequestPath url baseDir = Inr item"
  shows "\<exists>bn p. (bn = ''ac'' \<or> bn = ''cas'')
           \<and> url = p @ bn @ ''/'' @ hash item
           \<and> isHash (hash item)
           \<and> absFilePath item = Join [baseDir, bn @ ''/'', hash item]
           \<and> absFilePath item = Join [baseDir, bn] @ ''/'' @ hash item
           \<and> Dir (absFilePath item) = Join [baseDir, bn]"
proof -
  from parse_sound [OF assms] obtain p b where
    d: "url = p @ b @ hash item" "b = ''ac/'' \<or> b = ''cas/''" "isHash (hash item)"
       "absFilePath item = Join [baseDir, b, hash item]"
    by blast
  from d(2) show ?thesis
  proof
    assume b: "b = ''ac/''"
    then have "b = ''ac'' @ ''/''" by simp
    then show ?thesis
      using d abs_in_bucket(1,2) [OF bucket_plain(1) d(3), of baseDir]
      by (intro exI [of _ "''ac''"] exI [of _ p]) simp
  next
    assume b: "b = ''cas/''"
    then have "b = ''cas'' @ ''/''" by simp
    then show ?thesis
      using d abs_in_bucket(1,2) [OF bucket_plain(2) d(3), of baseDir]
      by (intro exI [of _ "''cas''"] exI [of _ p]) simp
  qed
qed

lemma saveToDisk_first_call:
  "\<exists>rest. calls (snd (saveToDisk e content cerr info s))
      = calls s @ OsTempFile (cacheDir (cache s)) ''upload'' # rest"
  by (auto simp: saveToDisk_def ioutilTempFile_def osRemove_def Let_def case_prod_beta
      split: option.splits)

lemma saveToDisk_saved_calls:
  assumes "fst (saveToDisk e content cerr info s) = Ret (w, None)"
  shows "calls (snd (saveToDisk e content cerr info s)) = calls s @
           [OsTempFile (cacheDir (cache s)) ''upload'',
            OsWrite (tempFileName e (cacheDir (cache s)) ''upload'') (fst (ioCopy e content cerr)),
            OsSync (tempFileName e (cacheDir (cache s)) ''upload''),
            OsClose (tempFileName e (cacheDir (cache s)) ''upload''),
            OsRename (tempFileName e (cacheDir (cache s)) ''upload'') (absFilePath info)]"
  using assms
  by (auto simp: saveToDisk_def ioutilTempFile_def Let_def case_prod_beta
      split: option.splits if_splits)

lemma Dir_tempFileName:
  assumes "dir \<noteq> []"
  shows "Dir (tempFileName e dir ''upload'') = Clean dir"
proof -
  let ?n = "''upload'' @ decimal (tempFileRand e)"
  have "tempFileName e dir ''upload'' = render (isRooted dir) (segsOf (isRooted dir) dir @ [?n])"
    unfolding tempFileName_def using assms Join_dir_name [OF upload_plain] by simp
  then show ?thesis
    using Dir_render [OF segsOf_valid upload_plain] by (simp add: Clean_segsOf)
qed

lemma saveToDisk_saved:
  assumes "tempFileErr e = None" and "disk s (tempFileName e (cacheDir (cache s)) ''upload'') = None"
    and "\<not> (verifyHash info \<and> hash info \<noteq> EncodeToString (sha256Sum e (hashedBytes e content)))"
    and "snd (ioCopy e content cerr) = None"
    and "syncErr e = None"
    and "renameErr e = None"
  shows "fst (saveToDisk e content cerr info s) = Ret (int (length (fst (ioCopy e content cerr))), None)"
    and "disk (snd (saveToDisk e content cerr info s)) =
           (disk s)(tempFileName e (cacheDir (cache s)) ''upload'' := None,
                    absFilePath info \<mapsto> fst (ioCopy e content cerr))"
  using assms
  by (auto simp: saveToDisk_def ioutilTempFile_def Let_def case_prod_beta)


lemma ex_env [simp]:
  "tempFileErr exEnv = None" "copyFault exEnv = None" "syncErr exEnv = None"
  "renameErr exEnv = None" "removeErr exEnv = None" "tempFileRand exEnv = 123456789"
  "osTempDir exEnv = ''/tmp''" "EnsureSpace exEnv c n = (True, c)"
  by (simp_all add: exEnv_def)

lemma ex_state [simp]:
  "cache exState = exCache" "cacheDir exCache = ''/data''" "entries exCache = []"
  "ongoingUploads exState p = None" "mutexes exState = []" "disk exState p = None"
  "wStatus exState = None" "wBody exState = []" "calls exState = []"
  "accessLog exState = []" "errorLog exState = []" "stdLog exState = []"
  "\<not> ContainsFile exCache p" "\<not> bodyClosed exState"
  by (simp_all add: exState_def exCache_def ContainsFile_def)

lemma ex_request [simp]:
  "Method (exRequest m p) = m" "Path (exRequest m p) = p" "Body (exRequest m p) = ''abc''"
  "BodyErr (exRequest m p) = None" "ContentLength (exRequest m p) = 3"
  "RemoteAddr (exRequest m p) = ''10.0.0.1''"
  by (simp_all add: exRequest_def)

lemma ex_item [simp]:
  "hash (exItem b h) = h" "absFilePath (exItem b h) = ''/data/'' @ b @ ''/'' @ h"
  "verifyHash (exItem b h) = (b = ''cas'')"
  by (simp_all add: exItem_def)

lemma ex_tmp: "tempFileName exEnv ''/data'' ''upload'' = ''/data/upload123456789''"
  by (simp add: tempFileName_def decimal.simps digitChar_def Join_def Clean_def cleanSegs_def
      isRooted_def cleanStep_def render_def)

lemma ex_copy: "ioCopy (e\<lparr>copyFault := None\<rparr>) c ce = (c, ce)" "ioCopy exEnv c ce = (c, ce)"
  "hashedBytes exEnv c = c"
  by (simp_all add: ioCopy_def hashedBytes_def exEnv_def)


lemma CacheHandler_put_saved:
  assumes parse: "cacheItemFromRequestPath (Path r) (cacheDir (cache s)) = Inr item"
    and put: "Method r = ''PUT''"
    and fresh: "wStatus s = None"
    and absent: "\<not> ContainsFile (cache s) (absFilePath item)"
    and free: "ongoingUploads s (absFilePath item) = None"
    and space: "EnsureSpace e (cache s) (ContentLength r) = (True, c)"
    and cdir: "cacheDir c = cacheDir (cache s)"
    and tmp: "tempFileErr e = None" "disk s (tempFileName e (cacheDir (cache s)) ''upload'') = None"
    and match: "\<not> (verifyHash item
            \<and> hash item \<noteq> EncodeToString (sha256Sum e (hashedBytes e (Body r))))"
    and copy: "snd (ioCopy e (Body r) (BodyErr r)) = None"
    and sync: "syncErr e = None"
    and rename: "renameErr e = None"
  shows "fst (CacheHandler e r s) = Returned
       \<and> wStatus (snd (CacheHandler e r s)) = Some 200
       \<and> wBody (snd (CacheHandler e r s)) = wBody s
       \<and> calls (snd (CacheHandler e r s)) = calls s @
           [OsTempFile (cacheDir (cache s)) ''upload'',
            OsWrite (tempFileName e (cacheDir (cache s)) ''upload'') (fst (ioCopy e (Body r) (BodyErr r))),
            OsSync (tempFileName e (cacheDir (cache s)) ''upload''),
            OsClose (tempFileName e (cacheDir (cache s)) ''upload''),
            OsRename (tempFileName e (cacheDir (cache s)) ''upload'') (absFilePath item)]
       \<and> disk (snd (CacheHandler e r s)) =
           (disk s)(tempFileName e (cacheDir (cache s)) ''upload'' := None,
                    absFilePath item \<mapsto> fst (ioCopy e (Body r) (BodyErr r)))
       \<and> cache (snd (CacheHandler e r s)) =
           AddFile c (absFilePath item) (int (length (fst (ioCopy e (Body r) (BodyErr r)))))
       \<and> length (accessLog (snd (CacheHandler e r s))) = Suc (length (accessLog s))"
proof -
  let ?a = "length (mutexes s)"
  let ?s0 = "Lock ?a (snd (startUpload (absFilePath item) s))"
  let ?t = "?s0\<lparr>cache := c\<rparr>"
  let ?sv = "saveToDisk e (Body r) (BodyErr r) item ?t"
  note l = locked_state [OF free]
  have tmpt: "disk ?t (tempFileName e (cacheDir (cache ?t)) ''upload'') = None"
    using tmp(2) cdir by simp
  note sv = saveToDisk_saved [OF tmp(1) tmpt match copy sync rename]
  have absent0: "\<not> ContainsFile (cache ?s0) (absFilePath item)" using absent by simp
  have space0: "EnsureSpace e (cache ?s0) (ContentLength r) = (True, c)" using space by simp
  have "CacheHandler e r s =
      (Returned,
       (stopUpload (absFilePath item) (Unlock ?a
         (logResponse e r 200
           (WriteHeader 200
             ((snd ?sv)\<lparr>cache := AddFile (cache (snd ?sv)) (absFilePath item)
                 (int (length (fst (ioCopy e (Body r) (BodyErr r)))))\<rparr>)))))
       \<lparr>bodyClosed := True\<rparr>)"
    using CacheHandler_put_general [OF parse put absent, of e] l(1,4)
      putLocked_saved [OF absent0 space0 sv(1)]
    by (simp add: deferred_simps)
  then show ?thesis
    using fresh cdir sv(2) saveToDisk_saved_calls [OF sv(1)]
    by (simp add: saveToDisk_frame)
qed

lemma CacheHandler_head_absent:
  assumes "cacheItemFromRequestPath (Path r) (cacheDir (cache s)) = Inr item"
    and "Method r = ''HEAD''"
    and "\<not> ContainsFile (cache s) (absFilePath item)"
  shows "CacheHandler e r s = (Panicked nilDereference, s\<lparr>bodyClosed := True\<rparr>)"
  using assms by (simp add: CacheHandler_def deferred_simps)

lemma ex_parse_state:
  assumes "isHash h"
  shows "cacheItemFromRequestPath (Path (exRequest m (''/cas/'' @ h))) (cacheDir (cache exState))
           = Inr (exItem ''cas'' h)"
    and "cacheItemFromRequestPath (Path (exRequest m (''/ac/'' @ h))) (cacheDir (cache exState))
           = Inr (exItem ''ac'' h)"
  using ex_parse [OF assms] by simp_all

lemma ex_put_saved:
  assumes "isHash h" and "b = ''cas'' \<longrightarrow> h = exAbc \<and> Body r = ''abc''"
    and p: "cacheItemFromRequestPath (Path r) ''/data'' = Inr (exItem b h)" and "Method r = ''PUT''"
    and "BodyErr r = None"
  shows "fst (CacheHandler exEnv r exState) = Returned"
    and "wStatus (snd (CacheHandler exEnv r exState)) = Some 200"
    and "calls (snd (CacheHandler exEnv r exState)) =
           [OsTempFile ''/data'' ''upload'', OsWrite ''/data/upload123456789'' (Body r),
            OsSync ''/data/upload123456789'', OsClose ''/data/upload123456789'',
            OsRename ''/data/upload123456789'' (''/data/'' @ b @ ''/'' @ h)]"
    and "cache (snd (CacheHandler exEnv r exState))
           = AddFile exCache (''/data/'' @ b @ ''/'' @ h) (int (length (Body r)))"
proof -
  have parse: "cacheItemFromRequestPath (Path r) (cacheDir (cache exState)) = Inr (exItem b h)"
    using p by simp
  have match: "\<not> (verifyHash (exItem b h)
      \<and> hash (exItem b h) \<noteq> EncodeToString (sha256Sum exEnv (hashedBytes exEnv (Body r))))"
    using assms(2) by (auto simp: ex_digest ex_copy exItem_def)
  have copy: "snd (ioCopy exEnv (Body r) (BodyErr r)) = None"
    using assms(5) by (simp add: ex_copy)
  note th = CacheHandler_put_saved [where e=exEnv and r=r and s=exState and item="exItem b h"
      and c=exCache, OF parse assms(4) _ _ _ _ _ _ _ match copy]
  show "fst (CacheHandler exEnv r exState) = Returned"
    and "wStatus (snd (CacheHandler exEnv r exState)) = Some 200"
    and "calls (snd (CacheHandler exEnv r exState)) =
           [OsTempFile ''/data'' ''upload'', OsWrite ''/data/upload123456789'' (Body r),
            OsSync ''/data/upload123456789'', OsClose ''/data/upload123456789'',
            OsRename ''/data/upload123456789'' (''/data/'' @ b @ ''/'' @ h)]"
    and "cache (snd (CacheHandler exEnv r exState))
           = AddFile exCache (''/data/'' @ b @ ''/'' @ h) (int (length (Body r)))"
    using th by (simp_all add: ex_tmp ex_copy)
qed

lemma ex_dirs:
  "Dir ''/data/upload123456789'' = ''/data''" "Dir (''/data/cas/'' @ exZeros) = ''/data/cas''"
  "Dir (''/data/ac/'' @ exOther) = ''/data/ac''"
proof -
  have "Dir (Join [''/data'', ''ac'' @ ''/'', exOther]) = Join [''/data'', ''ac'']"
    using abs_in_bucket(2) [OF bucket_plain(1) ex_hashes(2)] .
  moreover have "Join [''/data'', ''ac''] = ''/data/ac''"
    by (simp add: Join_def Clean_def cleanSegs_def isRooted_def cleanStep_def render_def)
  ultimately show "Dir (''/data/ac/'' @ exOther) = ''/data/ac''"
    using ex_join(2) [OF ex_hashes(2)] by simp
  show "Dir ''/data/upload123456789'' = ''/data''"
    using Dir_tempFileName [of "''/data''" exEnv]
    by (simp add: ex_tmp Clean_def cleanSegs_def isRooted_def cleanStep_def render_def)
  have "Dir (Join [''/data'', ''cas'' @ ''/'', exZeros]) = Join [''/data'', ''cas'']"
    using abs_in_bucket(2) [OF bucket_plain(2) ex_hashes(1)] .
  moreover have "Join [''/data'', ''cas''] = ''/data/cas''"
    by (simp add: Join_def Clean_def cleanSegs_def isRooted_def cleanStep_def render_def)
  ultimately show "Dir (''/data/cas/'' @ exZeros) = ''/data/cas''"
    using ex_join(1) [OF ex_hashes(1)] by simp
qed

lemma ServeFile_fields [simp]:
  "cache (ServeFile r p s) = cache s" "ongoingUploads (ServeFile r p s) = ongoingUploads s"
  "mutexes (ServeFile r p s) = mutexes s" "accessLog (ServeFile r p s) = accessLog s"
  "errorLog (ServeFile r p s) = errorLog s" "stdLog (ServeFile r p s) = stdLog s"
  "disk (ServeFile r p s) = disk s" "calls (ServeFile r p s) = calls s"
  "bodyRead (ServeFile r p s) = bodyRead s" "bodyClosed (ServeFile r p s) = bodyClosed s"
  "wStatus s = None \<Longrightarrow>
     wStatus (ServeFile r p s) =
       (if containsDotDot (Path r) then Some 400
        else (case disk s p of None \<Rightarrow> Some 404 | Some bs \<Rightarrow> Some 200))"
  by (simp_all add: ServeFile_def Write_def Let_def split: option.splits)




lemma saveToDisk_fst_cong:
  assumes "disk t = disk t'" and "cacheDir (cache t) = cacheDir (cache t')"
  shows "fst (saveToDisk e b be i t) = fst (saveToDisk e b be i t')"
  using assms
  by (simp add: saveToDisk_def ioutilTempFile_def Let_def case_prod_beta osRemove_def
      split: option.splits sum.splits)

lemma hexDigit_plain:
  assumes "n < 16"
  shows "escapeChar (hexDigit n) = [hexDigit n]"
proof -
  have "hexDigit n \<in> set ''0123456789abcdef''"
    unfolding hexDigit_def using assms by (intro nth_mem) simp
  then show ?thesis by (auto simp: escapeChar_def squote_def dquote_def)
qed

lemma of_char_nibbles:
  "(of_char c :: nat) div 16 < 16" "(of_char c :: nat) mod 16 < 16"
proof -
  have "(of_char c :: nat) mod 256 = of_char c" by simp
  then have "(of_char c :: nat) < 256" by (metis mod_less_divisor zero_less_numeral)
  then show "(of_char c :: nat) div 16 < 16" by arith
  show "(of_char c :: nat) mod 16 < 16" by simp
qed

lemma EscapeString_hex: "EscapeString (EncodeToString bs) = EncodeToString bs"
  by (induction bs) (simp_all add: EscapeString_def EncodeToString_def hexDigit_plain of_char_nibbles)

lemma hashedBytes_complete: "snd (ioCopy e c ce) = None \<Longrightarrow> hashedBytes e c = c"
  by (auto simp: ioCopy_def hashedBytes_def split: option.splits if_splits)

text \<open>
  A CAS item whose content does not hash to the key: whatever happens to the
  writes, the writer returns an error, and the destination is as before.
\<close>

lemma saveToDisk_cas_differs:
  assumes "verifyHash info" and "hash info \<noteq> EncodeToString (sha256Sum e content)"
  shows "\<exists>err. fst (saveToDisk e content cerr info s) = Ret (0, Some err)"
proof (cases "snd (ioCopy e content cerr)")
  case None
  then have "hashedBytes e content = content" by (rule hashedBytes_complete)
  then show ?thesis using assms
    by (simp add: saveToDisk_def ioutilTempFile_def Let_def case_prod_beta
        split: option.splits sum.splits)
next
  case (Some a)
  then show ?thesis using assms
    by (simp add: saveToDisk_def ioutilTempFile_def Let_def case_prod_beta
        split: option.splits sum.splits)
qed

lemma saveToDisk_cas_differs_disk:
  assumes "verifyHash info" and "hash info \<noteq> EncodeToString (sha256Sum e content)"
    and "tempFileName e (cacheDir (cache s)) ''upload'' \<noteq> absFilePath info"
  shows "disk (snd (saveToDisk e content cerr info s)) (absFilePath info) = disk s (absFilePath info)"
proof (cases "snd (ioCopy e content cerr)")
  case None
  then have "hashedBytes e content = content" by (rule hashedBytes_complete)
  then show ?thesis using assms assms(3) [symmetric]
    by (simp add: saveToDisk_def ioutilTempFile_def osRemove_def Let_def case_prod_beta
        split: option.splits sum.splits)
next
  case (Some a)
  then show ?thesis using assms assms(3) [symmetric]
    by (simp add: saveToDisk_def ioutilTempFile_def osRemove_def Let_def case_prod_beta
        split: option.splits sum.splits)
qed

text \<open>The handler when the writer returns an error.\<close>

lemma CacheHandler_put_save_error:
  assumes parse: "cacheItemFromRequestPath (Path r) (cacheDir (cache s)) = Inr item"
    and put: "Method r = ''PUT''"
    and absent: "\<not> ContainsFile (cache s) (absFilePath item)"
    and free: "ongoingUploads s (absFilePath item) = None"
    and space: "EnsureSpace e (cache s) (ContentLength r) = (True, c)"
    and failed: "fst (saveToDisk e (Body r) (BodyErr r) item
        ((Lock (length (mutexes s)) (snd (startUpload (absFilePath item) s)))\<lparr>cache := c\<rparr>))
          = Ret (w, Some err)"
  shows "CacheHandler e r s =
      (Returned,
       (stopUpload (absFilePath item) (Unlock (length (mutexes s))
          (errorLogger (''Error saving file: '' @ err)
            (httpError r err 500 (snd (saveToDisk e (Body r) (BodyErr r) item
              ((Lock (length (mutexes s)) (snd (startUpload (absFilePath item) s)))\<lparr>cache := c\<rparr>)))))))
         \<lparr>bodyClosed := True\<rparr>)"
proof -
  let ?a = "length (mutexes s)"
  let ?s0 = "Lock ?a (snd (startUpload (absFilePath item) s))"
  note l = locked_state [OF free]
  have absent0: "\<not> ContainsFile (cache ?s0) (absFilePath item)" using absent by simp
  have space0: "EnsureSpace e (cache ?s0) (ContentLength r) = (True, c)" using space by simp
  show ?thesis
    using CacheHandler_put_general [OF parse put absent, of e] l(1,4)
      putLocked_save_error [OF absent0 space0 failed]
    by (simp add: deferred_simps)
qed

lemma saveToDisk_copy_fails:
  assumes "tempFileErr e = None" and "disk s (tempFileName e (cacheDir (cache s)) ''upload'') = None"
    and "\<not> (verifyHash info \<and> hash info \<noteq> EncodeToString (sha256Sum e (hashedBytes e content)))"
    and "snd (ioCopy e content cerr) = Some err"
  shows "fst (saveToDisk e content cerr info s) = Ret (0, Some err)"
    and "calls (snd (saveToDisk e content cerr info s)) = calls s @
           [OsTempFile (cacheDir (cache s)) ''upload'',
            OsWrite (tempFileName e (cacheDir (cache s)) ''upload'') (fst (ioCopy e content cerr))]"
    and "disk (snd (saveToDisk e content cerr info s)) =
           (disk s)(tempFileName e (cacheDir (cache s)) ''upload'' \<mapsto> fst (ioCopy e content cerr))"
  using assms
  by (auto simp: saveToDisk_def ioutilTempFile_def Let_def case_prod_beta)


section \<open>The claims\<close>

text \<open>
  Claim C1, amended.  A \<open>PUT\<close> of a CAS item that reaches the writer
  (nothing of the response has been written, the index does not hold the
  key, no upload of the key is in flight, the space-ensurer grants the
  reservation, keeps the root directory and does not register the key) and
  whose body does not hash to the key: the handler returns with status 500, the destination path is as before, the
  index does not hold the key, and a \<open>GET\<close> that follows answers 404
  without a body.  The hasher receives the whole body when no write to the
  temporary file fails.  When the temporary file is created and the digest
  the hasher has accumulated differs from the key's hash, the writer's
  calls are the creation of the temporary file, the write and the removal
  of the temporary file (after which, if the removal succeeds, the disk is
  as before), the writer fails with the message \<open>Hashes don't match.
  Provided 'K', Actual 'D'.\<close>, where \<open>K\<close> is the key's hash and \<open>D\<close> the
  accumulated digest, and the body of the response is that message.
\<close>

theorem hash_mismatch_rejected:
  assumes parse: "cacheItemFromRequestPath (Path r) (cacheDir (cache s)) = Inr item"
    and put: "Method r = ''PUT''"
    and cas: "verifyHash item"
    and fresh: "wStatus s = None"
    and absent: "\<not> ContainsFile (cache s) (absFilePath item)"
    and free: "ongoingUploads s (absFilePath item) = None"
    and space: "EnsureSpace e (cache s) (ContentLength r) = (True, c)"
    and cdir: "cacheDir c = cacheDir (cache s)"
    and evict: "\<not> ContainsFile c (absFilePath item)"
    and differ: "hash item \<noteq> EncodeToString (sha256Sum e (Body r))"
    and run: "CacheHandler e r s = (out, s')"
  shows "out = Returned
       \<and> wStatus s' = Some 500
       \<and> disk s' (absFilePath item) = disk s (absFilePath item)
       \<and> \<not> ContainsFile (cache s') (absFilePath item)
       \<and> fst (CacheHandler e' (r\<lparr>Method := ''GET''\<rparr>) (nextRequest s')) = Returned
       \<and> wStatus (snd (CacheHandler e' (r\<lparr>Method := ''GET''\<rparr>) (nextRequest s'))) = Some 404
       \<and> wBody (snd (CacheHandler e' (r\<lparr>Method := ''GET''\<rparr>) (nextRequest s'))) = []
       \<and> (copyFault e = None \<longrightarrow> hashedBytes e (Body r) = Body r)
       \<and> (tempFileErr e = None
            \<and> disk s (tempFileName e (cacheDir (cache s)) ''upload'') = None
            \<and> hash item \<noteq> EncodeToString (sha256Sum e (hashedBytes e (Body r))) \<longrightarrow>
            fst (saveToDisk e (Body r) (BodyErr r) item (s\<lparr>cache := c\<rparr>)) =
              Ret (0, Some (''Hashes don'' @ [squote] @ ''t match. Provided '' @ [squote]
                     @ hash item @ [squote] @ '', Actual '' @ [squote]
                     @ EncodeToString (sha256Sum e (hashedBytes e (Body r))) @ [squote] @ ''.''))
          \<and> wBody s' = wBody s @ ''Hashes don'' @ [squote] @ ''t match. Provided '' @ [squote]
                     @ hash item @ [squote] @ '', Actual '' @ [squote]
                     @ EncodeToString (sha256Sum e (hashedBytes e (Body r))) @ [squote] @ ''.''
                     @ [newline]
          \<and> calls s' = calls s @
               [OsTempFile (cacheDir (cache s)) ''upload'',
                OsWrite (tempFileName e (cacheDir (cache s)) ''upload'')
                  (fst (ioCopy e (Body r) (BodyErr r))),
                OsRemove (tempFileName e (cacheDir (cache s)) ''upload'')]
          \<and> (removeErr e = None \<longrightarrow> disk s' = disk s))"
proof -
  let ?a = "length (mutexes s)"
  let ?s0 = "Lock ?a (snd (startUpload (absFilePath item) s))"
  let ?t = "?s0\<lparr>cache := c\<rparr>"
  let ?tmp = "tempFileName e (cacheDir (cache s)) ''upload''"
  let ?bs = "fst (ioCopy e (Body r) (BodyErr r))"
  let ?digest = "EncodeToString (sha256Sum e (hashedBytes e (Body r)))"
  let ?msg = "''Hashes don'' @ [squote] @ ''t match. Provided '' @ [squote]
                     @ hash item @ [squote] @ '', Actual '' @ [squote]
                     @ ?digest @ [squote] @ ''.''"
  let ?s2 = "snd (saveToDisk e (Body r) (BodyErr r) item ?t)"
  note l = locked_state [OF free]
  have t: "cache ?t = c" "disk ?t = disk s" "calls ?t = calls s" "wStatus ?t = None"
    "wBody ?t = wBody s" "cacheDir (cache ?t) = cacheDir (cache s)"
    using fresh cdir by simp_all
  have ne: "tempFileName e (cacheDir (cache ?t)) ''upload'' \<noteq> absFilePath item"
    using tmp_not_destination [OF parse] .
  from saveToDisk_cas_differs [OF cas differ, of "BodyErr r" ?t]
  obtain err where failed: "fst (saveToDisk e (Body r) (BodyErr r) item ?t) = Ret (0, Some err)"
    by blast
  have h: "CacheHandler e r s =
      (Returned,
       (stopUpload (absFilePath item) (Unlock ?a
          (errorLogger (''Error saving file: '' @ err) (httpError r err 500 ?s2))))
         \<lparr>bodyClosed := True\<rparr>)"
    using CacheHandler_put_save_error [OF parse put absent free space failed] .
  then have out: "out = Returned" and s': "s' =
       (stopUpload (absFilePath item) (Unlock ?a
          (errorLogger (''Error saving file: '' @ err) (httpError r err 500 ?s2))))
         \<lparr>bodyClosed := True\<rparr>"
    using run by simp_all
  have f2: "wStatus ?s2 = None" "wBody ?s2 = wBody s" "cache ?s2 = c"
    using t by (simp_all add: saveToDisk_frame)
  have c': "cache s' = c" "wStatus s' = Some 500" "wBody s' = wBody s @ err @ [newline]"
    "calls s' = calls ?s2" "disk s' = disk ?s2"
    using f2 put by (simp_all add: s')
  have dest: "disk ?s2 (absFilePath item) = disk s (absFilePath item)"
    using saveToDisk_cas_differs_disk [OF cas differ ne, of "BodyErr r"] t by simp
  have parse': "cacheItemFromRequestPath (Path (r\<lparr>Method := ''GET''\<rparr>))
      (cacheDir (cache (nextRequest s'))) = Inr item"
    using parse cdir c'(1) by simp
  have get: "CacheHandler e' (r\<lparr>Method := ''GET''\<rparr>) (nextRequest s') =
      (Returned, (logResponse e' (r\<lparr>Method := ''GET''\<rparr>) 404
         (WriteHeader 404 (nextRequest s')))\<lparr>bodyClosed := True\<rparr>)"
    using CacheHandler_get_absent [OF parse'] evict c'(1) by simp
  have 1: "out = Returned \<and> wStatus s' = Some 500
       \<and> disk s' (absFilePath item) = disk s (absFilePath item)
       \<and> \<not> ContainsFile (cache s') (absFilePath item)
       \<and> fst (CacheHandler e' (r\<lparr>Method := ''GET''\<rparr>) (nextRequest s')) = Returned
       \<and> wStatus (snd (CacheHandler e' (r\<lparr>Method := ''GET''\<rparr>) (nextRequest s'))) = Some 404
       \<and> wBody (snd (CacheHandler e' (r\<lparr>Method := ''GET''\<rparr>) (nextRequest s'))) = []"
    unfolding get using out c' dest evict by simp
  have 2: "copyFault e = None \<longrightarrow> hashedBytes e (Body r) = Body r"
    by (simp add: hashedBytes_nofault)
  have 3: "tempFileErr e = None
            \<and> disk s ?tmp = None
            \<and> hash item \<noteq> ?digest \<longrightarrow>
            fst (saveToDisk e (Body r) (BodyErr r) item (s\<lparr>cache := c\<rparr>)) = Ret (0, Some ?msg)
          \<and> wBody s' = wBody s @ ''Hashes don'' @ [squote] @ ''t match. Provided '' @ [squote]
                     @ hash item @ [squote] @ '', Actual '' @ [squote]
                     @ ?digest @ [squote] @ ''.'' @ [newline]
          \<and> calls s' = calls s @ [OsTempFile (cacheDir (cache s)) ''upload'', OsWrite ?tmp ?bs,
                OsRemove ?tmp]
          \<and> (removeErr e = None \<longrightarrow> disk s' = disk s)"
  proof
    assume a: "tempFileErr e = None \<and> disk s ?tmp = None \<and> hash item \<noteq> ?digest"
    have tmp0: "disk ?t (tempFileName e (cacheDir (cache ?t)) ''upload'') = None"
      using a t by simp
    note sv = saveToDisk_mismatch [OF conjunct1 [OF a] tmp0 cas, of "Body r" "BodyErr r"]
    have m: "hashMismatch (hash item) ?digest = ?msg"
      by (simp add: hashMismatch_def EscapeString_hex)
    have e1: "err = ?msg" using sv(1) failed a m by simp
    have "fst (saveToDisk e (Body r) (BodyErr r) item (s\<lparr>cache := c\<rparr>))
        = fst (saveToDisk e (Body r) (BodyErr r) item ?t)"
      by (rule saveToDisk_fst_cong) simp_all
    then have w: "fst (saveToDisk e (Body r) (BodyErr r) item (s\<lparr>cache := c\<rparr>)) = Ret (0, Some ?msg)"
      using failed e1 by simp
    have c2: "calls ?s2 = calls s @ [OsTempFile (cacheDir (cache s)) ''upload'', OsWrite ?tmp ?bs,
        OsRemove ?tmp]"
      using sv(2) a t by simp
    have d2: "removeErr e = None \<longrightarrow> disk ?s2 = disk s"
      using sv(3) a t by simp
    show "fst (saveToDisk e (Body r) (BodyErr r) item (s\<lparr>cache := c\<rparr>)) = Ret (0, Some ?msg)
          \<and> wBody s' = wBody s @ ''Hashes don'' @ [squote] @ ''t match. Provided '' @ [squote]
                     @ hash item @ [squote] @ '', Actual '' @ [squote]
                     @ ?digest @ [squote] @ ''.'' @ [newline]
          \<and> calls s' = calls s @ [OsTempFile (cacheDir (cache s)) ''upload'', OsWrite ?tmp ?bs,
                OsRemove ?tmp]
          \<and> (removeErr e = None \<longrightarrow> disk s' = disk s)"
      using w c' c2 d2 e1 by simp
  qed
  show ?thesis using 1 2 3 by (intro conjI) (elim conjE, assumption)+
qed

text \<open>
  Claim C1 as stated fails: on the example server, a \<open>PUT\<close> of the body
  \<open>abc\<close> under the CAS key \<open>e3b0...\<close>, the digest of the empty input, when
  the first write to the temporary file fails.  The hasher has received
  nothing, so the accumulated digest is the key's hash although the body's
  digest is not; the writer returns the write error, the response is 500
  with that error and not with the two digests, and the writer does not
  remove the temporary file.
\<close>

theorem hash_mismatch_write_fault_counterexample:
  "verifyHash (exItem ''cas'' exEmpty)
   \<and> cacheItemFromRequestPath (''/cas/'' @ exEmpty) ''/data'' = Inr (exItem ''cas'' exEmpty)
   \<and> EncodeToString (sha256Sum
          (exEnv\<lparr>copyFault := Some (0, 0, ''write /data/upload123456789: no space left on device'')\<rparr>)
          (Body (exRequest ''PUT'' (''/cas/'' @ exEmpty)))) = exAbc
   \<and> exAbc \<noteq> hash (exItem ''cas'' exEmpty)
   \<and> fst (CacheHandler
          (exEnv\<lparr>copyFault := Some (0, 0, ''write /data/upload123456789: no space left on device'')\<rparr>)
          (exRequest ''PUT'' (''/cas/'' @ exEmpty)) exState) = Returned
   \<and> wStatus (snd (CacheHandler
          (exEnv\<lparr>copyFault := Some (0, 0, ''write /data/upload123456789: no space left on device'')\<rparr>)
          (exRequest ''PUT'' (''/cas/'' @ exEmpty)) exState)) = Some 500
   \<and> wBody (snd (CacheHandler
          (exEnv\<lparr>copyFault := Some (0, 0, ''write /data/upload123456789: no space left on device'')\<rparr>)
          (exRequest ''PUT'' (''/cas/'' @ exEmpty)) exState))
        = ''write /data/upload123456789: no space left on device'' @ [newline]
   \<and> calls (snd (CacheHandler
          (exEnv\<lparr>copyFault := Some (0, 0, ''write /data/upload123456789: no space left on device'')\<rparr>)
          (exRequest ''PUT'' (''/cas/'' @ exEmpty)) exState))
        = [OsTempFile ''/data'' ''upload'', OsWrite ''/data/upload123456789'' []]
   \<and> disk (snd (CacheHandler
          (exEnv\<lparr>copyFault := Some (0, 0, ''write /data/upload123456789: no space left on device'')\<rparr>)
          (exRequest ''PUT'' (''/cas/'' @ exEmpty)) exState)) ''/data/upload123456789'' = Some []"
proof -
  let ?err = "''write /data/upload123456789: no space left on device''"
  let ?e = "exEnv\<lparr>copyFault := Some (0, 0, ?err)\<rparr>"
  let ?r = "exRequest ''PUT'' (''/cas/'' @ exEmpty)"
  let ?item = "exItem ''cas'' exEmpty"
  let ?t = "(Lock (length (mutexes exState)) (snd (startUpload (absFilePath ?item) exState)))
      \<lparr>cache := exCache\<rparr>"
  note parse = ex_parse_state(1) [OF ex_hashes_real(2), of "''PUT''"]
  have put: "Method ?r = ''PUT''" by simp
  have absent: "\<not> ContainsFile (cache exState) (absFilePath ?item)" by simp
  have free: "ongoingUploads exState (absFilePath ?item) = None" by simp
  have space: "EnsureSpace ?e (cache exState) (ContentLength ?r) = (True, exCache)" by simp
  have cp: "ioCopy ?e ''abc'' None = ([], Some ?err)" "hashedBytes ?e ''abc'' = []"
    by (simp_all add: ioCopy_def hashedBytes_def)
  have tn: "tempFileName ?e ''/data'' ''upload'' = ''/data/upload123456789''"
    using ex_tmp by (simp add: tempFileName_def)
  have tmp: "tempFileErr ?e = None"
    "disk ?t (tempFileName ?e (cacheDir (cache ?t)) ''upload'') = None"
    by simp_all
  have match: "\<not> (verifyHash ?item
      \<and> hash ?item \<noteq> EncodeToString (sha256Sum ?e (hashedBytes ?e (Body ?r))))"
    by (simp add: cp ex_digest)
  have copy: "snd (ioCopy ?e (Body ?r) (BodyErr ?r)) = Some ?err" by (simp add: cp)
  note sv = saveToDisk_copy_fails [OF tmp match copy]
  note h = CacheHandler_put_save_error [OF parse put absent free space sv(1)]
  have ne: "exAbc \<noteq> exEmpty" by (simp add: exAbc_def exEmpty_def)
  show ?thesis
    unfolding h using sv(2,3) ne ex_parse(1) [OF ex_hashes_real(2)]
    by (simp add: saveToDisk_frame cp tn ex_digest)
qed

text \<open>
  On the example server: a \<open>PUT\<close> of the body \<open>abc\<close> (digest \<open>ba78...\<close>) under
  the CAS key \<open>aa...a\<close>.
\<close>

theorem hash_mismatch_rejected_witness:
  "fst (CacheHandler exEnv (exRequest ''PUT'' (''/cas/'' @ exOther)) exState) = Returned
   \<and> wStatus (snd (CacheHandler exEnv (exRequest ''PUT'' (''/cas/'' @ exOther)) exState)) = Some 500
   \<and> wBody (snd (CacheHandler exEnv (exRequest ''PUT'' (''/cas/'' @ exOther)) exState))
        = ''Hashes don'' @ [squote] @ ''t match. Provided '' @ [squote] @ exOther @ [squote]
            @ '', Actual '' @ [squote] @ exAbc @ [squote] @ ''.'' @ [newline]
   \<and> calls (snd (CacheHandler exEnv (exRequest ''PUT'' (''/cas/'' @ exOther)) exState))
        = [OsTempFile ''/data'' ''upload'', OsWrite ''/data/upload123456789'' ''abc'',
           OsRemove ''/data/upload123456789'']
   \<and> disk (snd (CacheHandler exEnv (exRequest ''PUT'' (''/cas/'' @ exOther)) exState)) = Map.empty
   \<and> wStatus (snd (CacheHandler exEnv (exRequest ''GET'' (''/cas/'' @ exOther))
        (nextRequest (snd (CacheHandler exEnv (exRequest ''PUT'' (''/cas/'' @ exOther)) exState)))))
       = Some 404"
proof -
  let ?r = "exRequest ''PUT'' (''/cas/'' @ exOther)"
  let ?item = "exItem ''cas'' exOther"
  note parse = ex_parse_state(1) [OF ex_hashes(2), of "''PUT''"]
  have put: "Method ?r = ''PUT''" by simp
  have cas: "verifyHash ?item" by simp
  have fresh: "wStatus exState = None" by simp
  have absent: "\<not> ContainsFile (cache exState) (absFilePath ?item)" by simp
  have free: "ongoingUploads exState (absFilePath ?item) = None" by simp
  have space: "EnsureSpace exEnv (cache exState) (ContentLength ?r) = (True, exCache)" by simp
  have cdir: "cacheDir exCache = cacheDir (cache exState)" by simp
  have evict: "\<not> ContainsFile exCache (absFilePath ?item)" by (simp add: ContainsFile_def)
  have ne: "exOther \<noteq> exAbc" by (simp add: exOther_def exAbc_def)
  have differ: "hash ?item \<noteq> EncodeToString (sha256Sum exEnv (Body ?r))"
    using ne by (simp add: ex_digest)
  have run: "CacheHandler exEnv ?r exState
      = (fst (CacheHandler exEnv ?r exState), snd (CacheHandler exEnv ?r exState))"
    by simp
  have get: "?r\<lparr>Method := ''GET''\<rparr> = exRequest ''GET'' (''/cas/'' @ exOther)"
    by (simp add: exRequest_def)
  have hyp: "tempFileErr exEnv = None
      \<and> disk exState (tempFileName exEnv (cacheDir (cache exState)) ''upload'') = None
      \<and> hash ?item \<noteq> EncodeToString (sha256Sum exEnv (hashedBytes exEnv (Body ?r)))"
    using ne by (simp add: ex_digest ex_copy)
  note th = hash_mismatch_rejected [OF parse put cas fresh absent free space cdir evict differ run,
      of exEnv]
  note a = th [THEN conjunct1]
  note b = th [THEN conjunct2, THEN conjunct1]
  note g = th [THEN conjunct2, THEN conjunct2, THEN conjunct2, THEN conjunct2, THEN conjunct2,
      THEN conjunct1, unfolded get]
  note m = th [THEN conjunct2, THEN conjunct2, THEN conjunct2, THEN conjunct2, THEN conjunct2,
      THEN conjunct2, THEN conjunct2, THEN conjunct2, THEN mp, OF hyp]
  have body: "wBody (snd (CacheHandler exEnv ?r exState))
        = ''Hashes don'' @ [squote] @ ''t match. Provided '' @ [squote] @ exOther @ [squote]
            @ '', Actual '' @ [squote] @ exAbc @ [squote] @ ''.'' @ [newline]"
    using m [THEN conjunct2, THEN conjunct1] by (simp add: ex_digest ex_copy)
  have calls: "calls (snd (CacheHandler exEnv ?r exState))
        = [OsTempFile ''/data'' ''upload'', OsWrite ''/data/upload123456789'' ''abc'',
           OsRemove ''/data/upload123456789'']"
    using m [THEN conjunct2, THEN conjunct2, THEN conjunct1] by (simp add: ex_tmp ex_copy)
  have disk: "disk (snd (CacheHandler exEnv ?r exState)) = Map.empty"
    using m [THEN conjunct2, THEN conjunct2, THEN conjunct2] by (simp add: exState_def)
  from a b body calls disk g show ?thesis
    by - (intro conjI, assumption+)
qed

text \<open>
  Claim C2, at the input where the code departs from it: a \<open>HEAD\<close> request
  for a well-formed key that the index does not hold.  Line 174 evaluates
  \<open>err.Error()\<close> with \<open>err\<close> equal to \<open>nil\<close>; the handler panics before a
  status is written and before any line reaches the access log, so the
  answer is not 404.
\<close>

theorem head_absent_panics:
  "fst (CacheHandler exEnv (exRequest ''HEAD'' (''/cas/'' @ exZeros)) exState) = Panicked nilDereference
   \<and> wStatus (snd (CacheHandler exEnv (exRequest ''HEAD'' (''/cas/'' @ exZeros)) exState)) = None
   \<and> accessLog (snd (CacheHandler exEnv (exRequest ''HEAD'' (''/cas/'' @ exZeros)) exState)) = []"
  using CacheHandler_head_absent [OF ex_parse_state(1) [OF ex_hashes(1), of "''HEAD''"], of exEnv]
  by simp




text \<open>
  Claim C4, amended.  For a key the parser accepts and a cache whose root
  directory is not the empty string, the writer's first call creates the
  temporary file in the root directory of the cache: the directory of the
  temporary file is the cleaned root, while the directory of the
  destination is the bucket directory \<open>ac\<close> or \<open>cas\<close> under that root, a
  different directory.  A write that succeeds ends with the rename of the
  temporary file onto the destination, from the root into the bucket.
\<close>

theorem temp_file_in_cache_root:
  assumes parse: "cacheItemFromRequestPath url (cacheDir (cache s)) = Inr item"
    and root: "cacheDir (cache s) \<noteq> []"
  shows "(\<exists>rest. calls (snd (saveToDisk e content cerr item s))
            = calls s @ OsTempFile (cacheDir (cache s)) ''upload'' # rest)
       \<and> (case fst (saveToDisk e content cerr item s) of
            Ret (w, None) \<Rightarrow>
              calls (snd (saveToDisk e content cerr item s)) = calls s @
                [OsTempFile (cacheDir (cache s)) ''upload'',
                 OsWrite (tempFileName e (cacheDir (cache s)) ''upload'') (fst (ioCopy e content cerr)),
                 OsSync (tempFileName e (cacheDir (cache s)) ''upload''),
                 OsClose (tempFileName e (cacheDir (cache s)) ''upload''),
                 OsRename (tempFileName e (cacheDir (cache s)) ''upload'') (absFilePath item)]
          | _ \<Rightarrow> True)
       \<and> Dir (tempFileName e (cacheDir (cache s)) ''upload'') = Clean (cacheDir (cache s))
       \<and> (\<exists>bn. (bn = ''ac'' \<or> bn = ''cas'')
             \<and> Dir (absFilePath item) = Join [cacheDir (cache s), bn])
       \<and> Dir (tempFileName e (cacheDir (cache s)) ''upload'') \<noteq> Dir (absFilePath item)"
proof -
  from parsed_path_in_bucket [OF parse] obtain bn where
    bn: "bn = ''ac'' \<or> bn = ''cas''" "Dir (absFilePath item) = Join [cacheDir (cache s), bn]"
    by blast
  have pl: "plainName bn" using bn(1) bucket_plain by auto
  have d: "Dir (tempFileName e (cacheDir (cache s)) ''upload'') = Clean (cacheDir (cache s))"
    using Dir_tempFileName [OF root] .
  have ne: "Join [cacheDir (cache s), bn] \<noteq> Clean (cacheDir (cache s))"
    using abs_in_bucket(3) [OF pl ex_hashes(1)] .
  have sc: "case fst (saveToDisk e content cerr item s) of
            Ret (w, None) \<Rightarrow>
              calls (snd (saveToDisk e content cerr item s)) = calls s @
                [OsTempFile (cacheDir (cache s)) ''upload'',
                 OsWrite (tempFileName e (cacheDir (cache s)) ''upload'') (fst (ioCopy e content cerr)),
                 OsSync (tempFileName e (cacheDir (cache s)) ''upload''),
                 OsClose (tempFileName e (cacheDir (cache s)) ''upload''),
                 OsRename (tempFileName e (cacheDir (cache s)) ''upload'') (absFilePath item)]
          | _ \<Rightarrow> True"
    using saveToDisk_saved_calls [of e content cerr item s]
    by (auto split: ctl.splits option.splits)
  show ?thesis
    using saveToDisk_first_call [of e content cerr item s] sc d bn ne by auto
qed

text \<open>
  Claim C4 as stated fails: on the example server the temporary file of a
  \<open>PUT\<close> of the key \<open>ac/aa...a\<close> is \<open>/data/upload123456789\<close>, in \<open>/data\<close>, and it
  is renamed to a path in \<open>/data/ac\<close>.
\<close>

theorem temp_file_other_directory_counterexample:
  "calls (snd (CacheHandler exEnv (exRequest ''PUT'' (''/ac/'' @ exOther)) exState)) =
     [OsTempFile ''/data'' ''upload'', OsWrite ''/data/upload123456789'' ''abc'',
      OsSync ''/data/upload123456789'', OsClose ''/data/upload123456789'',
      OsRename ''/data/upload123456789'' (''/data/ac/'' @ exOther)]
   \<and> Dir ''/data/upload123456789'' = ''/data''
   \<and> Dir (''/data/ac/'' @ exOther) = ''/data/ac''"
  using ex_put_saved(3) [OF ex_hashes(2), of "''ac''" "exRequest ''PUT'' (''/ac/'' @ exOther)"]
    ex_parse(2) [OF ex_hashes(2)] ex_dirs
  by simp

text \<open>On the example server, for the key \<open>ac/aa...a\<close> and the body \<open>abc\<close>.\<close>

theorem temp_file_in_cache_root_witness:
  "(\<exists>rest. calls (snd (saveToDisk exEnv ''abc'' None (exItem ''ac'' exOther) exState))
            = calls exState @ OsTempFile (cacheDir (cache exState)) ''upload'' # rest)
   \<and> calls (snd (saveToDisk exEnv ''abc'' None (exItem ''ac'' exOther) exState)) =
        [OsTempFile ''/data'' ''upload'', OsWrite ''/data/upload123456789'' ''abc'',
         OsSync ''/data/upload123456789'', OsClose ''/data/upload123456789'',
         OsRename ''/data/upload123456789'' (''/data/ac/'' @ exOther)]
   \<and> Dir (tempFileName exEnv (cacheDir (cache exState)) ''upload'') = Clean (cacheDir (cache exState))
   \<and> (\<exists>bn. (bn = ''ac'' \<or> bn = ''cas'')
         \<and> Dir (absFilePath (exItem ''ac'' exOther)) = Join [cacheDir (cache exState), bn])
   \<and> Dir (tempFileName exEnv (cacheDir (cache exState)) ''upload'')
        \<noteq> Dir (absFilePath (exItem ''ac'' exOther))"
proof -
  have parse: "cacheItemFromRequestPath (''/ac/'' @ exOther) (cacheDir (cache exState))
      = Inr (exItem ''ac'' exOther)"
    using ex_parse(2) [OF ex_hashes(2)] by simp
  have root: "cacheDir (cache exState) \<noteq> []" by simp
  have saved: "fst (saveToDisk exEnv ''abc'' None (exItem ''ac'' exOther) exState) = Ret (3, None)"
    using saveToDisk_saved(1) [of exEnv exState "exItem ''ac'' exOther" "''abc''" None]
    by (simp add: ex_copy)
  from temp_file_in_cache_root [OF parse root, of exEnv "''abc''" None]
  show ?thesis unfolding saved by (auto simp: ex_tmp ex_copy)
qed

text \<open>
  Claim C5, at an input where the code departs from it: a \<open>PUT\<close> that the
  space-ensurer refuses.  The handler answers 507 and returns at line 161
  without calling \<open>logResponse\<close>: the access log gets no line.
\<close>

theorem no_access_log_on_507:
  "fst (CacheHandler (exEnv\<lparr>EnsureSpace := \<lambda>c n. (False, c)\<rparr>)
          (exRequest ''PUT'' (''/cas/'' @ exZeros)) exState) = Returned
   \<and> wStatus (snd (CacheHandler (exEnv\<lparr>EnsureSpace := \<lambda>c n. (False, c)\<rparr>)
          (exRequest ''PUT'' (''/cas/'' @ exZeros)) exState)) = Some 507
   \<and> accessLog (snd (CacheHandler (exEnv\<lparr>EnsureSpace := \<lambda>c n. (False, c)\<rparr>)
          (exRequest ''PUT'' (''/cas/'' @ exZeros)) exState)) = []"
proof -
  let ?e = "exEnv\<lparr>EnsureSpace := \<lambda>c n. (False, c)\<rparr>"
  let ?r = "exRequest ''PUT'' (''/cas/'' @ exZeros)"
  let ?item = "exItem ''cas'' exZeros"
  let ?s0 = "Lock 0 (snd (startUpload (absFilePath ?item) exState))"
  note parse = ex_parse_state(1) [OF ex_hashes(1), of "''PUT''"]
  have l: "fst (startUpload (absFilePath ?item) exState) = 0"
    "\<not> isLocked 0 (snd (startUpload (absFilePath ?item) exState))"
    using locked_state(1,4) [of exState "absFilePath ?item"] by simp_all
  have "putLocked ?e ?r ?item ?s0 =
      (Returned,
       errorLogger (''The disk is full ('' @ decimalInt (CurrSize exCache) @ ''/''
                     @ decimalInt (MaxSize exCache) @ '' bytes used)'')
        (httpError ?r ''The disk is full. File could not be uploaded.'' 507 (?s0\<lparr>cache := exCache\<rparr>)))"
    by (rule putLocked_refused) simp_all
  then show ?thesis
    using CacheHandler_put_general [OF parse, of ?e] l by (simp add: deferred_simps)
qed

text \<open>
  Claim C6, amended.  Parsing succeeds exactly when the path is a prefix
  that is empty or ends with a slash and holds no newline, then \<open>ac/\<close> or
  \<open>cas/\<close>, then 64 characters of \<open>[a-f0-9]\<close>; the item then has that hash,
  the path joined from the base directory, the bucket and the hash, and
  \<open>verifyHash\<close> exactly for \<open>cas/\<close>.  Every other path gives the error
  with the HTML-escaped path, and the handler answers an error of the parser
  with status 400 and the error text.
\<close>

theorem key_parser_shape:
  "(keyParts url p b h \<and> newline \<notin> set p \<longrightarrow>
      cacheItemFromRequestPath url baseDir =
        Inr \<lparr> hash = h, absFilePath = Join [baseDir, b, h], verifyHash = (b = ''cas/'') \<rparr>)
   \<and> ((\<exists>item. cacheItemFromRequestPath url baseDir = Inr item)
        = (\<exists>p b h. keyParts url p b h \<and> newline \<notin> set p))
   \<and> ((\<nexists>p b h. keyParts url p b h \<and> newline \<notin> set p) \<longrightarrow>
        cacheItemFromRequestPath url baseDir = Inl (malformedKey url))
   \<and> (cacheItemFromRequestPath (Path r) (cacheDir (cache s)) = Inl msg \<and> wStatus s = None \<longrightarrow>
        fst (CacheHandler e r s) = Returned
      \<and> wStatus (snd (CacheHandler e r s)) = Some 400
      \<and> wBody (snd (CacheHandler e r s))
           = wBody s @ (if Method r = ''HEAD'' then [] else msg @ [newline]))"
proof -
  have 1: "keyParts url p b h \<and> newline \<notin> set p \<longrightarrow>
      cacheItemFromRequestPath url baseDir =
        Inr \<lparr> hash = h, absFilePath = Join [baseDir, b, h], verifyHash = (b = ''cas/'') \<rparr>"
    using parse_ok [of p b h baseDir] unfolding keyParts_okPrefix by simp
  have 3: "(\<nexists>p b h. keyParts url p b h \<and> newline \<notin> set p) \<longrightarrow>
        cacheItemFromRequestPath url baseDir = Inl (malformedKey url)"
    using parse_fail [of url baseDir] unfolding keyParts_okPrefix by simp
  have 2: "(\<exists>item. cacheItemFromRequestPath url baseDir = Inr item)
        = (\<exists>p b h. keyParts url p b h \<and> newline \<notin> set p)"
  proof
    assume "\<exists>item. cacheItemFromRequestPath url baseDir = Inr item"
    then show "\<exists>p b h. keyParts url p b h \<and> newline \<notin> set p"
      using 3 by auto
  next
    assume "\<exists>p b h. keyParts url p b h \<and> newline \<notin> set p"
    then obtain p b h where "keyParts url p b h \<and> newline \<notin> set p" by blast
    then show "\<exists>item. cacheItemFromRequestPath url baseDir = Inr item"
      using parse_ok [of p b h baseDir] unfolding keyParts_okPrefix by simp
  qed
  have 4: "cacheItemFromRequestPath (Path r) (cacheDir (cache s)) = Inl msg \<and> wStatus s = None \<longrightarrow>
        fst (CacheHandler e r s) = Returned
      \<and> wStatus (snd (CacheHandler e r s)) = Some 400
      \<and> wBody (snd (CacheHandler e r s))
           = wBody s @ (if Method r = ''HEAD'' then [] else msg @ [newline])"
    using handler_malformed [of r s msg e] by blast
  show ?thesis using 1 2 3 4 by (intro conjI)
qed

text \<open>
  Claim C6 as stated fails: a path with a newline in its prefix has the
  shape the claim describes, and the parser refuses it (the \<open>.\<close> of the
  pattern does not match a newline).
\<close>

theorem key_parser_newline_counterexample:
  "keyParts (''a'' @ [newline] @ ''/cas/'' @ exZeros) (''a'' @ [newline] @ ''/'') ''cas/'' exZeros
   \<and> cacheItemFromRequestPath (''a'' @ [newline] @ ''/cas/'' @ exZeros) ''/data''
       = Inl (malformedKey (''a'' @ [newline] @ ''/cas/'' @ exZeros))"
proof -
  let ?u = "''a'' @ [newline] @ ''/cas/'' @ exZeros"
  have shape: "keyParts ?u (''a'' @ [newline] @ ''/'') ''cas/'' exZeros"
    using ex_hashes(1) by (simp add: keyParts_def)
  have "\<not> (\<exists>p b h. ?u = p @ b @ h \<and> okPrefix p \<and> (b = ''ac/'' \<or> b = ''cas/'') \<and> isHash h)"
  proof
    assume "\<exists>p b h. ?u = p @ b @ h \<and> okPrefix p \<and> (b = ''ac/'' \<or> b = ''cas/'') \<and> isHash h"
    then obtain p b h where d: "?u = p @ b @ h" "okPrefix p" "b = ''ac/'' \<or> b = ''cas/''" "isHash h"
      by blast
    have u: "?u = (''a'' @ [newline] @ ''/'') @ ''cas/'' @ exZeros" by simp
    have "b = ''cas/'' \<and> h = exZeros"
      using key_unique [OF d(1) [unfolded u, symmetric] d(4) ex_hashes(1) d(3)] by auto
    then have "p = ''a'' @ [newline] @ ''/''" using d(1) by simp
    then show False using d(2) by (simp add: okPrefix_def)
  qed
  from parse_fail [OF this] shape show ?thesis by simp
qed

text \<open>
  On the example server: a key under a prefix, and a path whose last part
  is no hash.
\<close>

theorem key_parser_shape_witness:
  "cacheItemFromRequestPath (''/prefix/ac/'' @ exOther) ''/data''
      = Inr \<lparr> hash = exOther, absFilePath = Join [''/data'', ''ac/'', exOther],
              verifyHash = (''ac/'' = ''cas/'') \<rparr>
   \<and> cacheItemFromRequestPath ''/cas/xyz'' ''/data'' = Inl (malformedKey ''/cas/xyz'')
   \<and> fst (CacheHandler exEnv (exRequest ''GET'' ''/cas/xyz'') exState) = Returned
   \<and> wStatus (snd (CacheHandler exEnv (exRequest ''GET'' ''/cas/xyz'') exState)) = Some 400
   \<and> wBody (snd (CacheHandler exEnv (exRequest ''GET'' ''/cas/xyz'') exState))
        = malformedKey ''/cas/xyz'' @ [newline]"
proof -
  have shape: "keyParts (''/prefix/ac/'' @ exOther) ''/prefix/'' ''ac/'' exOther
      \<and> newline \<notin> set ''/prefix/''"
    using ex_hashes(2) by (simp add: keyParts_def newline_def)
  have none: "\<nexists>p b h. keyParts ''/cas/xyz'' p b h \<and> newline \<notin> set p"
  proof
    assume "\<exists>p b h. keyParts ''/cas/xyz'' p b h \<and> newline \<notin> set p"
    then obtain p b h where "''/cas/xyz'' = p @ b @ h" "isHash h"
      by (auto simp: keyParts_def)
    then have "length ''/cas/xyz'' = length p + length b + 64"
      by (metis isHash_def length_append add.assoc)
    then show False by simp
  qed
  note a = key_parser_shape [of "''/prefix/ac/'' @ exOther" "''/prefix/''" "''ac/''" exOther "''/data''"]
  note b = key_parser_shape [of "''/cas/xyz''" _ _ _ "''/data''" "exRequest ''GET'' ''/cas/xyz''"
      exState "malformedKey ''/cas/xyz''" exEnv]
  have bad: "cacheItemFromRequestPath ''/cas/xyz'' ''/data'' = Inl (malformedKey ''/cas/xyz'')"
    using b none by blast
  then have "cacheItemFromRequestPath (Path (exRequest ''GET'' ''/cas/xyz'')) (cacheDir (cache exState))
      = Inl (malformedKey ''/cas/xyz'') \<and> wStatus exState = None"
    by simp
  then show ?thesis using a b shape bad by simp
qed



text \<open>
  Claim C8.  When the space-ensurer refuses the reservation for
  \<open>Content-Length\<close> bytes, the handler answers 507, writes the line with the
  current and the maximum size to the error log, leaves the upload mutex
  unlocked and the key out of the registry, issues no file-system call,
  leaves the disk unchanged, and the index is the one the space-ensurer
  left: nothing is registered.
\<close>

theorem insufficient_space:
  assumes parse: "cacheItemFromRequestPath (Path r) (cacheDir (cache s)) = Inr item"
    and put: "Method r = ''PUT''"
    and fresh: "wStatus s = None"
    and absent: "\<not> ContainsFile (cache s) (absFilePath item)"
    and free: "ongoingUploads s (absFilePath item) = None"
    and refuse: "EnsureSpace e (cache s) (ContentLength r) = (False, c)"
    and run: "CacheHandler e r s = (out, s')"
  shows "out = Returned
       \<and> wStatus s' = Some 507
       \<and> wBody s' = wBody s @ ''The disk is full. File could not be uploaded.'' @ [newline]
       \<and> errorLog s' = errorLog s @
            [''The disk is full ('' @ decimalInt (CurrSize c) @ ''/''
               @ decimalInt (MaxSize c) @ '' bytes used)'']
       \<and> ongoingUploads s' (absFilePath item) = None
       \<and> mutexes s' = mutexes s @ [False]
       \<and> calls s' = calls s
       \<and> disk s' = disk s
       \<and> cache s' = c"
proof -
  let ?a = "length (mutexes s)"
  let ?s0 = "Lock ?a (snd (startUpload (absFilePath item) s))"
  note l = locked_state [OF free]
  have absent0: "\<not> ContainsFile (cache ?s0) (absFilePath item)" using absent by simp
  have refuse0: "EnsureSpace e (cache ?s0) (ContentLength r) = (False, c)" using refuse by simp
  have "CacheHandler e r s =
      (Returned,
       (stopUpload (absFilePath item) (Unlock ?a
          (errorLogger (''The disk is full ('' @ decimalInt (CurrSize c) @ ''/''
                     @ decimalInt (MaxSize c) @ '' bytes used)'')
            (httpError r ''The disk is full. File could not be uploaded.'' 507 (?s0\<lparr>cache := c\<rparr>)))))
         \<lparr>bodyClosed := True\<rparr>)"
    using CacheHandler_put_general [OF parse put absent, of e] l(1,4)
      putLocked_refused [OF absent0 refuse0]
    by (simp add: deferred_simps)
  then have out: "out = Returned" and s': "s' =
       (stopUpload (absFilePath item) (Unlock ?a
          (errorLogger (''The disk is full ('' @ decimalInt (CurrSize c) @ ''/''
                     @ decimalInt (MaxSize c) @ '' bytes used)'')
            (httpError r ''The disk is full. File could not be uploaded.'' 507 (?s0\<lparr>cache := c\<rparr>)))))
         \<lparr>bodyClosed := True\<rparr>"
    using run by simp_all
  show ?thesis
    unfolding s' using out fresh put l(2,3) by simp
qed

text \<open>On the example server, with a space-ensurer that refuses.\<close>

theorem insufficient_space_witness:
  "fst (CacheHandler (exEnv\<lparr>EnsureSpace := \<lambda>c n. (False, c)\<rparr>)
          (exRequest ''PUT'' (''/ac/'' @ exOther)) exState) = Returned
   \<and> wStatus (snd (CacheHandler (exEnv\<lparr>EnsureSpace := \<lambda>c n. (False, c)\<rparr>)
          (exRequest ''PUT'' (''/ac/'' @ exOther)) exState)) = Some 507
   \<and> errorLog (snd (CacheHandler (exEnv\<lparr>EnsureSpace := \<lambda>c n. (False, c)\<rparr>)
          (exRequest ''PUT'' (''/ac/'' @ exOther)) exState)) = [''The disk is full (0/100 bytes used)'']
   \<and> mutexes (snd (CacheHandler (exEnv\<lparr>EnsureSpace := \<lambda>c n. (False, c)\<rparr>)
          (exRequest ''PUT'' (''/ac/'' @ exOther)) exState)) = [False]
   \<and> calls (snd (CacheHandler (exEnv\<lparr>EnsureSpace := \<lambda>c n. (False, c)\<rparr>)
          (exRequest ''PUT'' (''/ac/'' @ exOther)) exState)) = []
   \<and> cache (snd (CacheHandler (exEnv\<lparr>EnsureSpace := \<lambda>c n. (False, c)\<rparr>)
          (exRequest ''PUT'' (''/ac/'' @ exOther)) exState)) = exCache"
proof -
  let ?e = "exEnv\<lparr>EnsureSpace := \<lambda>c n. (False, c)\<rparr>"
  let ?r = "exRequest ''PUT'' (''/ac/'' @ exOther)"
  let ?item = "exItem ''ac'' exOther"
  note parse = ex_parse_state(2) [OF ex_hashes(2), of "''PUT''"]
  have put: "Method ?r = ''PUT''" by simp
  have fresh: "wStatus exState = None" by simp
  have absent: "\<not> ContainsFile (cache exState) (absFilePath ?item)" by simp
  have free: "ongoingUploads exState (absFilePath ?item) = None" by simp
  have refuse: "EnsureSpace ?e (cache exState) (ContentLength ?r) = (False, exCache)" by simp
  have run: "CacheHandler ?e ?r exState
      = (fst (CacheHandler ?e ?r exState), snd (CacheHandler ?e ?r exState))" by simp
  have sizes: "decimalInt (CurrSize exCache) = ''0''" "decimalInt (MaxSize exCache) = ''100''"
    by (simp_all add: decimalInt_def CurrSize_def MaxSize_def exCache_def decimal.simps digitChar_def)
  from insufficient_space [OF parse put fresh absent free refuse run]
  show ?thesis by (simp add: sizes)
qed

text \<open>
  Claim C9.  When the final rename fails, the writer returns the rename
  error, whatever the cleanup does; the handler answers 500 with that error
  and logs it.  The cleanup is one \<open>Remove\<close> of the destination path, issued
  after the failed rename, and when it fails (the environment's error, or no
  file at the destination) its error only adds a line to the standard log.
\<close>

theorem rename_failure_reported:
  assumes parse: "cacheItemFromRequestPath (Path r) (cacheDir (cache s)) = Inr item"
    and put: "Method r = ''PUT''"
    and fresh: "wStatus s = None"
    and absent: "\<not> ContainsFile (cache s) (absFilePath item)"
    and free: "ongoingUploads s (absFilePath item) = None"
    and space: "EnsureSpace e (cache s) (ContentLength r) = (True, c)"
    and cdir: "cacheDir c = cacheDir (cache s)"
    and tmp: "tempFileErr e = None" "disk s (tempFileName e (cacheDir (cache s)) ''upload'') = None"
    and match: "\<not> (verifyHash item
            \<and> hash item \<noteq> EncodeToString (sha256Sum e (fst (ioCopy e (Body r) (BodyErr r)))))"
    and copy: "snd (ioCopy e (Body r) (BodyErr r)) = None"
    and sync: "syncErr e = None"
    and rename: "renameErr e = Some err2"
    and run: "CacheHandler e r s = (out, s')"
  shows "fst (saveToDisk e (Body r) (BodyErr r) item s) = Ret (0, Some err2)
       \<and> out = Returned
       \<and> wStatus s' = Some 500
       \<and> wBody s' = wBody s @ err2 @ [newline]
       \<and> errorLog s' = errorLog s @ [''Error saving file: '' @ err2]
       \<and> calls s' = calls s @
            [OsTempFile (cacheDir (cache s)) ''upload'',
             OsWrite (tempFileName e (cacheDir (cache s)) ''upload'') (fst (ioCopy e (Body r) (BodyErr r))),
             OsSync (tempFileName e (cacheDir (cache s)) ''upload''),
             OsClose (tempFileName e (cacheDir (cache s)) ''upload''),
             OsRename (tempFileName e (cacheDir (cache s)) ''upload'') (absFilePath item),
             OsRemove (absFilePath item)]
       \<and> stdLog s' = stdLog s @
            (''Failed renaming '' @ tempFileName e (cacheDir (cache s)) ''upload''
               @ '' to its final destination '' @ absFilePath item @ '': '' @ err2)
            # (case (case removeErr e of
                       Some m \<Rightarrow> Some m
                     | None \<Rightarrow>
                         (case disk s (absFilePath item) of
                            None \<Rightarrow> Some (''remove '' @ absFilePath item
                                            @ '': no such file or directory'')
                          | Some bs \<Rightarrow> None)) of
                 None \<Rightarrow> []
               | Some m \<Rightarrow>
                   [''Failed cleaning up '' @ tempFileName e (cacheDir (cache s)) ''upload''
                      @ '' after a failure to rename it to its final destination: '' @ m])"
proof -
  let ?a = "length (mutexes s)"
  let ?s0 = "Lock ?a (snd (startUpload (absFilePath item) s))"
  let ?t = "?s0\<lparr>cache := c\<rparr>"
  let ?tmp = "tempFileName e (cacheDir (cache s)) ''upload''"
  note l = locked_state [OF free]
  have ne: "?tmp \<noteq> absFilePath item" using tmp_not_destination [OF parse] .
  have tmpt: "disk ?t (tempFileName e (cacheDir (cache ?t)) ''upload'') = None"
    using tmp(2) cdir by simp
  have match': "\<not> (verifyHash item
      \<and> hash item \<noteq> EncodeToString (sha256Sum e (hashedBytes e (Body r))))"
    using match hashedBytes_whole [OF copy] by simp
  note sv = saveToDisk_rename_fails [OF tmp(1) tmpt match' copy sync rename]
  note sv0 = saveToDisk_rename_fails(1) [OF tmp match' copy sync rename]
  have absent0: "\<not> ContainsFile (cache ?s0) (absFilePath item)" using absent by simp
  have space0: "EnsureSpace e (cache ?s0) (ContentLength r) = (True, c)" using space by simp
  have "CacheHandler e r s =
      (Returned,
       (stopUpload (absFilePath item) (Unlock ?a
          (errorLogger (''Error saving file: '' @ err2)
            (httpError r err2 500 (snd (saveToDisk e (Body r) (BodyErr r) item ?t))))))
         \<lparr>bodyClosed := True\<rparr>)"
    using CacheHandler_put_general [OF parse put absent, of e] l(1,4)
      putLocked_save_error [OF absent0 space0 sv(1)]
    by (simp add: deferred_simps)
  then have out: "out = Returned" and s': "s' =
       (stopUpload (absFilePath item) (Unlock ?a
          (errorLogger (''Error saving file: '' @ err2)
            (httpError r err2 500 (snd (saveToDisk e (Body r) (BodyErr r) item ?t))))))
         \<lparr>bodyClosed := True\<rparr>"
    using run by simp_all
  show ?thesis
    unfolding s' using out sv0 fresh put cdir
    by (simp add: saveToDisk_frame sv(2) sv(3) osRemove_result ne ne [symmetric] cong: option.case_cong)
qed

text \<open>
  On the example server, with a rename that fails: nothing is at the
  destination, so the cleanup fails too, and the standard log has two lines.
\<close>

theorem rename_failure_reported_witness:
  "fst (saveToDisk (exEnv\<lparr>renameErr := Some ''invalid cross-device link''\<rparr>) ''abc'' None
          (exItem ''ac'' exOther) exState) = Ret (0, Some ''invalid cross-device link'')
   \<and> fst (CacheHandler (exEnv\<lparr>renameErr := Some ''invalid cross-device link''\<rparr>)
          (exRequest ''PUT'' (''/ac/'' @ exOther)) exState) = Returned
   \<and> wStatus (snd (CacheHandler (exEnv\<lparr>renameErr := Some ''invalid cross-device link''\<rparr>)
          (exRequest ''PUT'' (''/ac/'' @ exOther)) exState)) = Some 500
   \<and> wBody (snd (CacheHandler (exEnv\<lparr>renameErr := Some ''invalid cross-device link''\<rparr>)
          (exRequest ''PUT'' (''/ac/'' @ exOther)) exState)) = ''invalid cross-device link'' @ [newline]
   \<and> errorLog (snd (CacheHandler (exEnv\<lparr>renameErr := Some ''invalid cross-device link''\<rparr>)
          (exRequest ''PUT'' (''/ac/'' @ exOther)) exState))
        = [''Error saving file: invalid cross-device link'']
   \<and> length (stdLog (snd (CacheHandler (exEnv\<lparr>renameErr := Some ''invalid cross-device link''\<rparr>)
          (exRequest ''PUT'' (''/ac/'' @ exOther)) exState))) = 2"
proof -
  let ?e = "exEnv\<lparr>renameErr := Some ''invalid cross-device link''\<rparr>"
  let ?r = "exRequest ''PUT'' (''/ac/'' @ exOther)"
  let ?item = "exItem ''ac'' exOther"
  note parse = ex_parse_state(2) [OF ex_hashes(2), of "''PUT''"]
  have put: "Method ?r = ''PUT''" by simp
  have fresh: "wStatus exState = None" by simp
  have absent: "\<not> ContainsFile (cache exState) (absFilePath ?item)" by simp
  have free: "ongoingUploads exState (absFilePath ?item) = None" by simp
  have space: "EnsureSpace ?e (cache exState) (ContentLength ?r) = (True, exCache)" by simp
  have cdir: "cacheDir exCache = cacheDir (cache exState)" by simp
  have tmp: "tempFileErr ?e = None"
    "disk exState (tempFileName ?e (cacheDir (cache exState)) ''upload'') = None"
    by simp_all
  have cp: "ioCopy ?e c ce = (c, ce)" for c ce by (simp add: ioCopy_def)
  have match: "\<not> (verifyHash ?item
      \<and> hash ?item \<noteq> EncodeToString (sha256Sum ?e (fst (ioCopy ?e (Body ?r) (BodyErr ?r)))))"
    by simp
  have copy: "snd (ioCopy ?e (Body ?r) (BodyErr ?r)) = None" by (simp add: cp)
  have sync: "syncErr ?e = None" by simp
  have rename: "renameErr ?e = Some ''invalid cross-device link''" by simp
  have run: "CacheHandler ?e ?r exState
      = (fst (CacheHandler ?e ?r exState), snd (CacheHandler ?e ?r exState))" by simp
  from rename_failure_reported [OF parse put fresh absent free space cdir tmp match copy sync rename run]
  show ?thesis by simp
qed

text \<open>
  Claim C10.  When the key parser accepts a path, the file path it derives
  is the base directory joined with the matched bucket and the matched hash;
  it is the bucket directory (\<open>ac\<close> or \<open>cas\<close> under the base directory)
  followed by a separator and the hash, so its directory is that bucket
  directory, whatever prefix the request path had.
\<close>

theorem no_path_traversal:
  assumes "cacheItemFromRequestPath url baseDir = Inr item"
  shows "\<exists>bn p. (bn = ''ac'' \<or> bn = ''cas'')
           \<and> url = p @ bn @ ''/'' @ hash item
           \<and> isHash (hash item)
           \<and> absFilePath item = Join [baseDir, bn @ ''/'', hash item]
           \<and> absFilePath item = Join [baseDir, bn] @ ''/'' @ hash item
           \<and> Dir (absFilePath item) = Join [baseDir, bn]"
  using parsed_path_in_bucket [OF assms] .

text \<open>On the example server, for a key under a prefix.\<close>

theorem no_path_traversal_witness:
  "\<exists>bn p. (bn = ''ac'' \<or> bn = ''cas'')
      \<and> ''/prefix/ac/'' @ exOther = p @ bn @ ''/'' @ hash (exItem ''ac'' exOther)
      \<and> isHash (hash (exItem ''ac'' exOther))
      \<and> absFilePath (exItem ''ac'' exOther) = Join [''/data'', bn @ ''/'', hash (exItem ''ac'' exOther)]
      \<and> absFilePath (exItem ''ac'' exOther) = Join [''/data'', bn] @ ''/'' @ hash (exItem ''ac'' exOther)
      \<and> Dir (absFilePath (exItem ''ac'' exOther)) = Join [''/data'', bn]"
proof -
  have "cacheItemFromRequestPath (''/prefix/ac/'' @ exOther) ''/data'' = Inr (exItem ''ac'' exOther)"
    using parse_ok [of "''/prefix/''" "''ac/''" exOther "''/data''"] ex_hashes(2)
      ex_join(2) [OF ex_hashes(2)]
    by (simp add: okPrefix_def newline_def exItem_def)
  from no_path_traversal [OF this] show ?thesis .
qed

end
